theory Spec2Isabelle
  imports
    Complex_Main
    "HOL-Library.Multiset"
    "HOL-Library.Char_ord"
    "HOL-Library.List_Lexorder"
    "HOL-Library.Product_Lexorder"
    "HOL-Library.Log_Nat"
begin

section \<open>Data model: the table of closed positions\<close>

text \<open>
  \<^verbatim>\<open>robinhood_app.py\<close> reads \<^verbatim>\<open>closed_positions.csv\<close> into a pandas DataFrame and uses
  four of its columns. A row of the frame is a record with these columns, the frame is the
  list of its rows in file order. The column \<^verbatim>\<open>sell_date\<close> is a calendar date after
  \<^verbatim>\<open>pd.to_datetime\<close>; dates are compared chronologically, which is the lexicographic
  order of (year, month, day). The numeric columns hold float64 values; a float64 is
  modelled by the rational number it denotes.
\<close>

record date =
  year :: int
  month :: nat
  day :: nat

definition date_key :: "date \<Rightarrow> int \<times> nat \<times> nat" where
  "date_key d = (year d, month d, day d)"

record closed_position =
  instrument :: string
  sell_date :: date
  realized_profit_loss :: rat
  holding_period_days :: rat

type_synonym table = "closed_position list"

section \<open>float64 arithmetic\<close>

text \<open>
  pandas keeps the numeric columns as float64, and every addition of two float64 values
  gives the float64 nearest to the exact sum, ties going to the even significand (IEEE 754
  round to nearest even). The significand has 53 bits; below \<open>2 powi (- 1022)\<close> the
  spacing of the values stays at \<open>2 powi (- 1074)\<close>. Sums beyond the largest float64
  would be infinite in the code; the model has no infinity. The sums over a whole column
  (\<^verbatim>\<open>sum()\<close>, \<^verbatim>\<open>cumsum()\<close>) round in this way; the sums within a month or an
  instrument and the means are modelled without rounding.
\<close>

text \<open>The exponent of the leading bit of a positive rational.\<close>

definition floor_log2 :: "rat \<Rightarrow> int" where
  "floor_log2 a =
     (let (p, q) = quotient_of a;
          k = bitlen p - bitlen q
      in if 2 powi k \<le> a then k else k - 1)"

definition round_half_even :: "rat \<Rightarrow> int" where
  "round_half_even r =
     (let f = \<lfloor>r\<rfloor>; d = r - of_int f
      in if d < 1 / 2 then f
         else if 1 / 2 < d then f + 1
         else if even f then f else f + 1)"

text \<open>The float64 nearest to a rational.\<close>

definition float64_round :: "rat \<Rightarrow> rat" where
  "float64_round x =
     (if x = 0 then 0
      else let e = max (floor_log2 \<bar>x\<bar> - 52) (- 1074)
           in sgn x * of_int (round_half_even (\<bar>x\<bar> / 2 powi e)) * 2 powi e)"

definition f64_add :: "rat \<Rightarrow> rat \<Rightarrow> rat" where
  "f64_add x y = float64_round (x + y)"

text \<open>
  \<^verbatim>\<open>Series.sum()\<close> on float64 is numpy's \<^verbatim>\<open>add.reduce\<close>, which sums pairwise: fewer than 8
  values are added one after the other; up to 128 values are added into 8 accumulators
  (value \<open>i\<close> to accumulator \<open>i mod 8\<close>), the accumulators are combined as
  \<open>((r0 + r1) + (r2 + r3)) + ((r4 + r5) + (r6 + r7))\<close> and the values after the last
  full block of 8 are added one after the other; more than 128 values are split at half
  the length, rounded down to a multiple of 8, and the sums of the halves are added. The
  result is added to the initial value 0 of the reduction.
\<close>

fun add_loop :: "rat \<Rightarrow> rat list \<Rightarrow> rat" where
  "add_loop res [] = res"
| "add_loop res (a # rest) = add_loop (f64_add res a) rest"

function add_blocks :: "rat list \<Rightarrow> rat list \<Rightarrow> rat list \<times> rat list" where
  "add_blocks r xs =
     (if length xs < 8 then (r, xs)
      else add_blocks (map2 f64_add r (take 8 xs)) (drop 8 xs))"
  by pat_completeness auto
termination
  by (relation "measure (\<lambda>(r, xs). length xs)") auto

definition combine8 :: "rat list \<Rightarrow> rat" where
  "combine8 r =
     f64_add (f64_add (f64_add (r ! 0) (r ! 1)) (f64_add (r ! 2) (r ! 3)))
             (f64_add (f64_add (r ! 4) (r ! 5)) (f64_add (r ! 6) (r ! 7)))"

definition unrolled_sum :: "rat list \<Rightarrow> rat" where
  "unrolled_sum xs =
     (case add_blocks (take 8 xs) (drop 8 xs) of
        (r, rest) \<Rightarrow> add_loop (combine8 r) rest)"

function pairwise_sum :: "rat list \<Rightarrow> rat" where
  "pairwise_sum xs =
     (if length xs < 8 then add_loop 0 xs
      else if length xs \<le> 128 then unrolled_sum xs
      else f64_add
             (pairwise_sum (take (length xs div 2 - (length xs div 2) mod 8) xs))
             (pairwise_sum (drop (length xs div 2 - (length xs div 2) mod 8) xs)))"
  by pat_completeness auto
termination
  by (relation "measure length") auto

definition series_sum :: "rat list \<Rightarrow> rat" where
  "series_sum xs = f64_add 0 (pairwise_sum xs)"

declare add_blocks.simps [simp del] pairwise_sum.simps [simp del]

section \<open>Overall performance metrics (lines 57 to 68)\<close>

text \<open>\<^verbatim>\<open>closed_positions_df['realized_profit_loss'].sum()\<close>, in the order of the file.\<close>

definition total_realized_pl :: "table \<Rightarrow> rat" where
  "total_realized_pl df = series_sum (map realized_profit_loss df)"

definition total_trades :: "table \<Rightarrow> nat" where
  "total_trades df = length df"

definition profitable_trades_count :: "table \<Rightarrow> nat" where
  "profitable_trades_count df = length (filter (\<lambda>r. realized_profit_loss r > 0) df)"

text \<open>
  \<^verbatim>\<open>win_rate = (profitable_trades_count / total_trades) * 100 if total_trades > 0 else 0\<close>
\<close>

definition win_rate :: "table \<Rightarrow> rat" where
  "win_rate df =
     (if total_trades df > 0
      then (of_nat (profitable_trades_count df) / of_nat (total_trades df)) * 100
      else 0)"

text \<open>\<^verbatim>\<open>Series.mean()\<close>: the mean of an empty column is NaN, here \<open>None\<close>.\<close>

definition mean :: "rat list \<Rightarrow> rat option" where
  "mean xs = (if xs = [] then None else Some (sum_list xs / of_nat (length xs)))"

definition avg_holding_period :: "table \<Rightarrow> rat option" where
  "avg_holding_period df = mean (map holding_period_days df)"

section \<open>Holding period: profitable and losing trades (lines 114 and 115)\<close>

definition profitable_trades :: "table \<Rightarrow> table" where
  "profitable_trades df = filter (\<lambda>r. realized_profit_loss r > 0) df"

definition losing_trades :: "table \<Rightarrow> table" where
  "losing_trades df = filter (\<lambda>r. realized_profit_loss r \<le> 0) df"

section \<open>Cumulative P/L (lines 28 and 29)\<close>

text \<open>
  \<^verbatim>\<open>DataFrame.sort_values(by=...)\<close> is pandas code, called with its default
  \<^verbatim>\<open>kind='quicksort'\<close>. What its documentation promises of the result is that it holds
  the rows of the frame, each as often as the frame does, in ascending order of the key
  column; only \<^verbatim>\<open>kind='mergesort'\<close> and \<^verbatim>\<open>kind='stable'\<close> are documented as stable. The
  sort is a parameter of the model, and \<open>sort_values_ok\<close> is what is known of its result
  on a frame.
\<close>

definition sort_values_ok :: "('r \<Rightarrow> 'k::linorder) \<Rightarrow> 'r list \<Rightarrow> 'r list \<Rightarrow> bool" where
  "sort_values_ok key xs ys \<longleftrightarrow> sorted (map key ys) \<and> mset ys = mset xs"

definition by_sell_date :: "closed_position \<Rightarrow> int \<times> nat \<times> nat" where
  "by_sell_date r = date_key (sell_date r)"

text \<open>
  \<^verbatim>\<open>Series.cumsum()\<close> is numpy's \<^verbatim>\<open>cumsum\<close>: the first value is the first element, and
  each further value is the float64 sum of the value before it and the next element.
\<close>

fun cumsum_from :: "rat \<Rightarrow> rat list \<Rightarrow> rat list" where
  "cumsum_from acc [] = []"
| "cumsum_from acc (x # xs) = f64_add acc x # cumsum_from (f64_add acc x) xs"

definition cumsum :: "rat list \<Rightarrow> rat list" where
  "cumsum xs = (case xs of [] \<Rightarrow> [] | x # rest \<Rightarrow> x # cumsum_from x rest)"

text \<open>
  \<^verbatim>\<open>closed_positions_df_sorted = closed_positions_df.sort_values(by='sell_date')\<close>
  \<^verbatim>\<open>closed_positions_df_sorted['cumulative_pl'] = closed_positions_df_sorted['realized_profit_loss'].cumsum()\<close>
  A row of the sorted frame is the pair of the row of the table and its value in the new
  column \<^verbatim>\<open>cumulative_pl\<close>.
\<close>

definition closed_positions_df_sorted ::
  "(table \<Rightarrow> table) \<Rightarrow> table \<Rightarrow> (closed_position \<times> rat) list" where
  "closed_positions_df_sorted sort_values df =
     (let sorted_rows = sort_values df
      in zip sorted_rows (cumsum (map realized_profit_loss sorted_rows)))"

text \<open>A sort that meets \<open>sort_values_ok\<close>: insertion sort by the date.\<close>

definition stable_sort :: "table \<Rightarrow> table" where
  "stable_sort df = sort_key by_sell_date df"

section \<open>Monthly cumulative P/L (lines 32 and 33)\<close>

text \<open>
  \<^verbatim>\<open>resample('ME')\<close> buckets the rows by calendar month and labels each bucket with the
  last day of its month. Months are numbered consecutively: \<open>month_index\<close> of a date is
  12 times its year plus its month, counted from 0.
\<close>

definition month_index :: "date \<Rightarrow> int" where
  "month_index d = year d * 12 + int (month d) - 1"

definition is_leap_year :: "int \<Rightarrow> bool" where
  "is_leap_year y \<longleftrightarrow> (y mod 4 = 0 \<and> y mod 100 \<noteq> 0) \<or> y mod 400 = 0"

definition days_in_month :: "int \<Rightarrow> nat \<Rightarrow> nat" where
  "days_in_month y m =
     (if m = 2 then (if is_leap_year y then 29 else 28)
      else if m = 4 \<or> m = 6 \<or> m = 9 \<or> m = 11 then 30
      else 31)"

definition valid_date :: "date \<Rightarrow> bool" where
  "valid_date d \<longleftrightarrow>
     1 \<le> month d \<and> month d \<le> 12 \<and> 1 \<le> day d \<and> day d \<le> days_in_month (year d) (month d)"

definition month_end :: "int \<Rightarrow> date" where
  "month_end k =
     \<lparr>year = k div 12, month = nat (k mod 12) + 1,
      day = days_in_month (k div 12) (nat (k mod 12) + 1)\<rparr>"

text \<open>
  A row of \<^verbatim>\<open>monthly_pl\<close> before the cumulative column is added: the columns
  \<^verbatim>\<open>sell_date\<close> (the month end) and \<^verbatim>\<open>realized_profit_loss\<close> (the sum of the month).
\<close>

record monthly_row =
  m_sell_date :: date
  m_realized_profit_loss :: rat

text \<open>
  \<^verbatim>\<open>.set_index('sell_date').resample('ME')['realized_profit_loss'].sum()\<close> on the pairs
  (index, value) of the frame: pandas spans the bins from the month of the least index to
  the month of the greatest, one bin per calendar month, and the sum of a bin without rows
  is 0. An empty frame gives an empty result.
\<close>

definition resample_ME_sum :: "(date \<times> rat) list \<Rightarrow> monthly_row list" where
  "resample_ME_sum xs =
     (if xs = [] then []
      else let ks = map (month_index \<circ> fst) xs;
               lo = fold min ks (hd ks);
               hi = fold max ks (hd ks)
           in map (\<lambda>k. \<lparr>m_sell_date = month_end k,
                         m_realized_profit_loss =
                           sum_list (map snd (filter (\<lambda>x. month_index (fst x) = k) xs))\<rparr>)
                  [lo..hi])"

text \<open>
  \<^verbatim>\<open>monthly_pl = closed_positions_df_sorted.set_index('sell_date').resample('ME')['realized_profit_loss'].sum().reset_index()\<close>
  \<^verbatim>\<open>monthly_pl['cumulative_pl'] = monthly_pl['realized_profit_loss'].cumsum()\<close>
\<close>

definition monthly_pl :: "(table \<Rightarrow> table) \<Rightarrow> table \<Rightarrow> (monthly_row \<times> rat) list" where
  "monthly_pl sort_values df =
     (let buckets = resample_ME_sum
                   (map (\<lambda>(r, c). (sell_date r, realized_profit_loss r))
                        (closed_positions_df_sorted sort_values df))
      in zip buckets (cumsum (map m_realized_profit_loss buckets)))"

section \<open>Instrument performance (lines 36 to 42)\<close>

text \<open>
  A row of \<^verbatim>\<open>instrument_performance\<close>: the columns \<^verbatim>\<open>instrument\<close>, \<^verbatim>\<open>total_pl\<close>,
  \<^verbatim>\<open>num_trades\<close> and \<^verbatim>\<open>avg_holding_period\<close>.
\<close>

record instrument_row =
  perf_instrument :: string
  total_pl :: rat
  num_trades :: nat
  mean_holding_period :: "rat option"

text \<open>
  \<^verbatim>\<open>groupby('instrument').agg(...).reset_index()\<close>: one row for each instrument of the
  table, the groups in ascending order of the instrument (\<^verbatim>\<open>sort=True\<close> is the default
  of \<^verbatim>\<open>groupby\<close>), with the sum of \<^verbatim>\<open>realized_profit_loss\<close>, the number of rows and the
  mean of \<^verbatim>\<open>holding_period_days\<close> of the group.
\<close>

definition instrument_performance :: "table \<Rightarrow> instrument_row list" where
  "instrument_performance df =
     map (\<lambda>k. let g = filter (\<lambda>r. instrument r = k) df
              in \<lparr>perf_instrument = k,
                  total_pl = sum_list (map realized_profit_loss g),
                  num_trades = length g,
                  mean_holding_period = mean (map holding_period_days g)\<rparr>)
         (sort (remdups (map instrument df)))"

text \<open>What is known of \<^verbatim>\<open>sort_values(by=..., ascending=False)\<close>.\<close>

definition sort_values_desc_ok :: "('r \<Rightarrow> 'k::linorder) \<Rightarrow> 'r list \<Rightarrow> 'r list \<Rightarrow> bool" where
  "sort_values_desc_ok key xs ys \<longleftrightarrow> sorted (rev (map key ys)) \<and> mset ys = mset xs"

text \<open>
  \<^verbatim>\<open>top_10_profitable = instrument_performance.sort_values(by='total_pl', ascending=False).head(10)\<close>
  \<^verbatim>\<open>bottom_10_losing = instrument_performance.sort_values(by='total_pl', ascending=True).head(10)\<close>
\<close>

definition top_10_profitable ::
  "(instrument_row list \<Rightarrow> instrument_row list) \<Rightarrow> table \<Rightarrow> instrument_row list" where
  "top_10_profitable sort_values_desc df = take 10 (sort_values_desc (instrument_performance df))"

definition bottom_10_losing ::
  "(instrument_row list \<Rightarrow> instrument_row list) \<Rightarrow> table \<Rightarrow> instrument_row list" where
  "bottom_10_losing sort_values_asc df = take 10 (sort_values_asc (instrument_performance df))"

text \<open>Two sorts by \<^verbatim>\<open>total_pl\<close> that meet the contracts.\<close>

definition sort_asc :: "instrument_row list \<Rightarrow> instrument_row list" where
  "sort_asc rows = sort_key total_pl rows"

definition sort_desc :: "instrument_row list \<Rightarrow> instrument_row list" where
  "sort_desc rows = rev (sort_key total_pl rows)"

section \<open>Loading the data (lines 11 to 24)\<close>

text \<open>
  The exceptions the script can meet. \<^verbatim>\<open>pd.read_csv\<close> raises \<^verbatim>\<open>FileNotFoundError\<close> when
  the file is absent, and other exceptions when it is there but cannot be read or parsed
  (\<^verbatim>\<open>PermissionError\<close>, \<^verbatim>\<open>EmptyDataError\<close>, \<^verbatim>\<open>ParserError\<close>); the column access and
  \<^verbatim>\<open>pd.to_datetime\<close> of line 14 raise \<^verbatim>\<open>KeyError\<close> or a date parsing error. None of
  these classes derives from \<^verbatim>\<open>FileNotFoundError\<close>.
\<close>

datatype py_exception =
  FileNotFoundError | PermissionError | EmptyDataError | ParserError | DateParseError
  | KeyError | NameError

text \<open>
  How a call of \<^verbatim>\<open>load_data\<close> ends: it returns the frame, or it shows a message with
  \<^verbatim>\<open>st.error\<close> and ends the run with \<^verbatim>\<open>st.stop()\<close>, or an exception leaves it uncaught.
\<close>

datatype load_result = Loaded table | StopApp string | Uncaught py_exception

definition data_files_not_found :: string where
  "data_files_not_found =
     ''Error: Data files not found. Make sure 'closed_positions.csv' (and others) are in the same directory.''"

text \<open>
  The argument is what lines 13 and 14 do on the file at hand: they raise, or they give
  the table with its dates parsed. The only handler is \<^verbatim>\<open>except FileNotFoundError\<close>.
\<close>

fun load_data :: "py_exception + table \<Rightarrow> load_result" where
  "load_data (Inr df) = Loaded df"
| "load_data (Inl FileNotFoundError) = StopApp data_files_not_found"
| "load_data (Inl e) = Uncaught e"

section \<open>The script as a sequence of statements on a store\<close>

text \<open>
  DataFrames are objects: a variable holds a reference, and an assignment to a column
  (\<^verbatim>\<open>df['cumulative_pl'] = ...\<close>) changes the object in place. The store is the list of
  the frames allocated so far, a reference is an index into it. A frame in the store is one
  of the shapes the script builds: the columns of the file, those with \<^verbatim>\<open>cumulative_pl\<close>
  added, the monthly sums without and with \<^verbatim>\<open>cumulative_pl\<close>, the instrument
  aggregates, and the positions with \<^verbatim>\<open>Trade_Outcome\<close> added.
\<close>

datatype frame =
  Positions "closed_position list"
  | PositionsCum "(closed_position \<times> rat) list"
  | Monthly "monthly_row list"
  | MonthlyCum "(monthly_row \<times> rat) list"
  | Instruments "instrument_row list"
  | Outcomes "(closed_position \<times> string) list"

text \<open>The global variables of the script that hold frames.\<close>

datatype var =
  V_closed_positions_df | V_closed_positions_df_sorted | V_monthly_pl
  | V_instrument_performance | V_top_10_profitable | V_bottom_10_losing
  | V_profitable_trades | V_losing_trades | V_combined_holding

text \<open>The five numbers of the summary strip (lines 57 to 67).\<close>

record metrics =
  m_total_realized_pl :: rat
  m_total_trades :: nat
  m_profitable_trades_count :: nat
  m_win_rate :: rat
  m_avg_holding_period :: "rat option"

record session =
  heap :: "frame list"
  globals :: "var \<Rightarrow> nat option"
  summary :: "metrics option"

text \<open>
  How a run of the script ends, with the store at that moment: all statements done, stopped
  by \<^verbatim>\<open>st.stop()\<close> after a message, or ended by an uncaught exception.
\<close>

datatype run_result =
  Finished session | Halted string session | Crashed py_exception session

text \<open>The three calls of \<^verbatim>\<open>sort_values\<close> in the script, as parameters.\<close>

record pandas_sort =
  sort_by_sell_date :: "table \<Rightarrow> table"
  sort_by_total_pl_descending :: "instrument_row list \<Rightarrow> instrument_row list"
  sort_by_total_pl_ascending :: "instrument_row list \<Rightarrow> instrument_row list"

definition startup :: session where
  "startup = \<lparr>heap = [], globals = (\<lambda>v. None), summary = None\<rparr>"

text \<open>
  \<^verbatim>\<open>v = <expression that builds a frame>\<close>: every pandas call of the script that gives a
  frame (\<^verbatim>\<open>read_csv\<close>, \<^verbatim>\<open>sort_values\<close>, \<^verbatim>\<open>reset_index\<close>, \<^verbatim>\<open>head\<close>, a boolean mask,
  \<^verbatim>\<open>concat\<close>) returns a new object.
\<close>

definition assign_new :: "var \<Rightarrow> frame \<Rightarrow> session \<Rightarrow> session" where
  "assign_new v f s = s\<lparr>heap := heap s @ [f], globals := (globals s)(v := Some (length (heap s)))\<rparr>"

definition frame_of :: "var \<Rightarrow> session \<Rightarrow> frame option" where
  "frame_of v s =
     (case globals s v of
        None \<Rightarrow> None
      | Some a \<Rightarrow> if a < length (heap s) then Some (heap s ! a) else None)"

text \<open>
  Reading the columns of the file from the frame of a variable: a variable not yet
  assigned raises \<^verbatim>\<open>NameError\<close>, a frame without these columns \<^verbatim>\<open>KeyError\<close>.
\<close>

definition read_positions :: "var \<Rightarrow> session \<Rightarrow> py_exception + table" where
  "read_positions v s =
     (case frame_of v s of
        None \<Rightarrow> Inl NameError
      | Some (Positions rows) \<Rightarrow> Inr rows
      | Some (PositionsCum rows) \<Rightarrow> Inr (map fst rows)
      | Some _ \<Rightarrow> Inl KeyError)"

text \<open>\<^verbatim>\<open>closed_positions_df = load_data()\<close>\<close>

definition line_24 :: "py_exception + table \<Rightarrow> session \<Rightarrow> run_result" where
  "line_24 src s =
     (case load_data src of
        Loaded df \<Rightarrow> Finished (assign_new V_closed_positions_df (Positions df) s)
      | StopApp msg \<Rightarrow> Halted msg s
      | Uncaught e \<Rightarrow> Crashed e s)"

text \<open>\<^verbatim>\<open>closed_positions_df_sorted = closed_positions_df.sort_values(by='sell_date')\<close>\<close>

definition line_28 :: "pandas_sort \<Rightarrow> session \<Rightarrow> run_result" where
  "line_28 lib s =
     (case read_positions V_closed_positions_df s of
        Inl e \<Rightarrow> Crashed e s
      | Inr rows \<Rightarrow>
          Finished (assign_new V_closed_positions_df_sorted
                      (Positions (sort_by_sell_date lib rows)) s))"

text \<open>
  \<^verbatim>\<open>closed_positions_df_sorted['cumulative_pl'] = closed_positions_df_sorted['realized_profit_loss'].cumsum()\<close>:
  the object the variable refers to gets the new column.
\<close>

definition line_29 :: "session \<Rightarrow> run_result" where
  "line_29 s =
     (case globals s V_closed_positions_df_sorted of
        None \<Rightarrow> Crashed NameError s
      | Some a \<Rightarrow>
          (case read_positions V_closed_positions_df_sorted s of
             Inl e \<Rightarrow> Crashed e s
           | Inr rows \<Rightarrow>
               Finished (s\<lparr>heap := (heap s)
                  [a := PositionsCum (zip rows (cumsum (map realized_profit_loss rows)))]\<rparr>)))"

text \<open>
  \<^verbatim>\<open>monthly_pl = closed_positions_df_sorted.set_index('sell_date').resample('ME')['realized_profit_loss'].sum().reset_index()\<close>
\<close>

definition line_32 :: "session \<Rightarrow> run_result" where
  "line_32 s =
     (case frame_of V_closed_positions_df_sorted s of
        None \<Rightarrow> Crashed NameError s
      | Some (PositionsCum rows) \<Rightarrow>
          Finished (assign_new V_monthly_pl
            (Monthly (resample_ME_sum
                        (map (\<lambda>(r, c). (sell_date r, realized_profit_loss r)) rows))) s)
      | Some (Positions rows) \<Rightarrow>
          Finished (assign_new V_monthly_pl
            (Monthly (resample_ME_sum
                        (map (\<lambda>r. (sell_date r, realized_profit_loss r)) rows))) s)
      | Some _ \<Rightarrow> Crashed KeyError s)"

text \<open>\<^verbatim>\<open>monthly_pl['cumulative_pl'] = monthly_pl['realized_profit_loss'].cumsum()\<close>\<close>

definition line_33 :: "session \<Rightarrow> run_result" where
  "line_33 s =
     (case globals s V_monthly_pl of
        None \<Rightarrow> Crashed NameError s
      | Some a \<Rightarrow>
          (case frame_of V_monthly_pl s of
             None \<Rightarrow> Crashed NameError s
           | Some (Monthly rows) \<Rightarrow>
               Finished (s\<lparr>heap := (heap s)
                  [a := MonthlyCum (zip rows (cumsum (map m_realized_profit_loss rows)))]\<rparr>)
           | Some (MonthlyCum rows) \<Rightarrow>
               Finished (s\<lparr>heap := (heap s)
                  [a := MonthlyCum (zip (map fst rows)
                          (cumsum (map (m_realized_profit_loss \<circ> fst) rows)))]\<rparr>)
           | Some _ \<Rightarrow> Crashed KeyError s))"

text \<open>\<^verbatim>\<open>instrument_performance = closed_positions_df.groupby('instrument').agg(...).reset_index()\<close>\<close>

definition line_36 :: "session \<Rightarrow> run_result" where
  "line_36 s =
     (case read_positions V_closed_positions_df s of
        Inl e \<Rightarrow> Crashed e s
      | Inr rows \<Rightarrow>
          Finished (assign_new V_instrument_performance
                      (Instruments (instrument_performance rows)) s))"

text \<open>
  \<^verbatim>\<open>top_10_profitable = instrument_performance.sort_values(by='total_pl', ascending=False).head(10)\<close>
\<close>

definition line_41 :: "pandas_sort \<Rightarrow> session \<Rightarrow> run_result" where
  "line_41 lib s =
     (case frame_of V_instrument_performance s of
        None \<Rightarrow> Crashed NameError s
      | Some (Instruments rows) \<Rightarrow>
          Finished (assign_new V_top_10_profitable
                      (Instruments (take 10 (sort_by_total_pl_descending lib rows))) s)
      | Some _ \<Rightarrow> Crashed KeyError s)"

text \<open>
  \<^verbatim>\<open>bottom_10_losing = instrument_performance.sort_values(by='total_pl', ascending=True).head(10)\<close>
\<close>

definition line_42 :: "pandas_sort \<Rightarrow> session \<Rightarrow> run_result" where
  "line_42 lib s =
     (case frame_of V_instrument_performance s of
        None \<Rightarrow> Crashed NameError s
      | Some (Instruments rows) \<Rightarrow>
          Finished (assign_new V_bottom_10_losing
                      (Instruments (take 10 (sort_by_total_pl_ascending lib rows))) s)
      | Some _ \<Rightarrow> Crashed KeyError s)"

text \<open>
  Lines 57, 60, 63, 64 and 67: \<^verbatim>\<open>total_realized_pl\<close>, \<^verbatim>\<open>total_trades\<close>,
  \<^verbatim>\<open>profitable_trades_count\<close>, \<^verbatim>\<open>win_rate\<close> and \<^verbatim>\<open>avg_holding_period\<close>, all read from
  \<^verbatim>\<open>closed_positions_df\<close>.
\<close>

definition lines_57_to_67 :: "session \<Rightarrow> run_result" where
  "lines_57_to_67 s =
     (case read_positions V_closed_positions_df s of
        Inl e \<Rightarrow> Crashed e s
      | Inr rows \<Rightarrow>
          Finished (s\<lparr>summary := Some
            \<lparr>m_total_realized_pl = total_realized_pl rows,
             m_total_trades = total_trades rows,
             m_profitable_trades_count = profitable_trades_count rows,
             m_win_rate = win_rate rows,
             m_avg_holding_period = avg_holding_period rows\<rparr>\<rparr>))"

text \<open>\<^verbatim>\<open>profitable_trades = closed_positions_df[closed_positions_df['realized_profit_loss'] > 0]\<close>\<close>

definition line_114 :: "session \<Rightarrow> run_result" where
  "line_114 s =
     (case read_positions V_closed_positions_df s of
        Inl e \<Rightarrow> Crashed e s
      | Inr rows \<Rightarrow>
          Finished (assign_new V_profitable_trades (Positions (profitable_trades rows)) s))"

text \<open>\<^verbatim>\<open>losing_trades = closed_positions_df[closed_positions_df['realized_profit_loss'] <= 0]\<close>\<close>

definition line_115 :: "session \<Rightarrow> run_result" where
  "line_115 s =
     (case read_positions V_closed_positions_df s of
        Inl e \<Rightarrow> Crashed e s
      | Inr rows \<Rightarrow>
          Finished (assign_new V_losing_trades (Positions (losing_trades rows)) s))"

text \<open>
  \<^verbatim>\<open>combined_holding = pd.concat([profitable_trades.assign(Trade_Outcome='Profitable'), losing_trades.assign(Trade_Outcome='Losing')])\<close>
\<close>

definition lines_118_to_121 :: "session \<Rightarrow> run_result" where
  "lines_118_to_121 s =
     (case read_positions V_profitable_trades s of
        Inl e \<Rightarrow> Crashed e s
      | Inr won \<Rightarrow>
          (case read_positions V_losing_trades s of
             Inl e \<Rightarrow> Crashed e s
           | Inr lost \<Rightarrow>
               Finished (assign_new V_combined_holding
                 (Outcomes (map (\<lambda>r. (r, ''Profitable'')) won
                            @ map (\<lambda>r. (r, ''Losing'')) lost)) s)))"

text \<open>
  Statements run in order; the run ends at the first one that stops the app or raises.
  The calls that draw (\<^verbatim>\<open>st.metric\<close>, \<^verbatim>\<open>px.line\<close>, \<^verbatim>\<open>px.bar\<close>, \<^verbatim>\<open>px.histogram\<close>,
  \<^verbatim>\<open>st.plotly_chart\<close>) read the frames and are not statements of the model.
\<close>

fun run :: "(session \<Rightarrow> run_result) list \<Rightarrow> session \<Rightarrow> run_result" where
  "run [] s = Finished s"
| "run (stmt # rest) s =
     (case stmt s of
        Finished s' \<Rightarrow> run rest s'
      | Halted msg s' \<Rightarrow> Halted msg s'
      | Crashed e s' \<Rightarrow> Crashed e s')"

definition statements :: "pandas_sort \<Rightarrow> py_exception + table \<Rightarrow> (session \<Rightarrow> run_result) list" where
  "statements lib src =
     [line_24 src, line_28 lib, line_29, line_32, line_33, line_36, line_41 lib, line_42 lib,
      lines_57_to_67, line_114, line_115, lines_118_to_121]"

definition script :: "pandas_sort \<Rightarrow> py_exception + table \<Rightarrow> run_result" where
  "script lib src = run (statements lib src) startup"

section \<open>Notions used in the statements\<close>

text \<open>The columns \<^verbatim>\<open>sell_date\<close> and \<^verbatim>\<open>realized_profit_loss\<close> of a frame, row by row.\<close>

definition dated_pl :: "table \<Rightarrow> (date \<times> rat) list" where
  "dated_pl rows = map (\<lambda>r. (sell_date r, realized_profit_loss r)) rows"

text \<open>The sum of \<^verbatim>\<open>realized_profit_loss\<close> over the rows of a table sold in month \<open>k\<close>.\<close>

definition pl_in_month :: "int \<Rightarrow> table \<Rightarrow> rat" where
  "pl_in_month k df =
     sum_list (map realized_profit_loss (filter (\<lambda>r. month_index (sell_date r) = k) df))"

text \<open>A row of the table with the earliest, or the latest, \<^verbatim>\<open>sell_date\<close>.\<close>

definition earliest_in :: "table \<Rightarrow> closed_position \<Rightarrow> bool" where
  "earliest_in df e \<longleftrightarrow> e \<in> set df \<and> (\<forall>r \<in> set df. by_sell_date e \<le> by_sell_date r)"

definition latest_in :: "table \<Rightarrow> closed_position \<Rightarrow> bool" where
  "latest_in df l \<longleftrightarrow> l \<in> set df \<and> (\<forall>r \<in> set df. by_sell_date r \<le> by_sell_date l)"

text \<open>The rows of a table that trade a given instrument.\<close>

definition trades_of :: "string \<Rightarrow> table \<Rightarrow> table" where
  "trades_of k df = filter (\<lambda>r. instrument r = k) df"

text \<open>
  Amounts that float64 adds without rounding, in any order and grouping: whole numbers
  whose absolute values add up to at most \<open>2 ^ 53\<close>.
\<close>

definition whole_amounts :: "rat list \<Rightarrow> bool" where
  "whole_amounts xs \<longleftrightarrow> (\<forall>x \<in> set xs. x \<in> \<int>) \<and> sum_list (map abs xs) \<le> 2 ^ 53"

text \<open>The three sorts of a run return the rows of their frames in the order asked for.\<close>

definition lib_ok :: "pandas_sort \<Rightarrow> table \<Rightarrow> bool" where
  "lib_ok lib df \<longleftrightarrow>
     sort_values_ok by_sell_date df (sort_by_sell_date lib df)
     \<and> sort_values_desc_ok total_pl (instrument_performance df)
           (sort_by_total_pl_descending lib (instrument_performance df))
     \<and> sort_values_ok total_pl (instrument_performance df)
           (sort_by_total_pl_ascending lib (instrument_performance df))"

text \<open>The frame of a variable at the end of a run, if the run finished.\<close>

definition frame_after :: "var \<Rightarrow> run_result \<Rightarrow> frame option" where
  "frame_after v r = (case r of Finished s \<Rightarrow> frame_of v s | _ \<Rightarrow> None)"

text \<open>The rows of lines 118 to 121, from the table.\<close>

definition combined_holding :: "table \<Rightarrow> (closed_position \<times> string) list" where
  "combined_holding df =
     map (\<lambda>r. (r, ''Profitable'')) (profitable_trades df)
     @ map (\<lambda>r. (r, ''Losing'')) (losing_trades df)"

text \<open>The store, the variables and the summary at the end of a run on a loaded table.\<close>

definition final_heap :: "pandas_sort \<Rightarrow> table \<Rightarrow> frame list" where
  "final_heap lib df =
     [Positions df,
      PositionsCum (closed_positions_df_sorted (sort_by_sell_date lib) df),
      MonthlyCum (monthly_pl (sort_by_sell_date lib) df),
      Instruments (instrument_performance df),
      Instruments (top_10_profitable (sort_by_total_pl_descending lib) df),
      Instruments (bottom_10_losing (sort_by_total_pl_ascending lib) df),
      Positions (profitable_trades df),
      Positions (losing_trades df),
      Outcomes (combined_holding df)]"

definition final_globals :: "var \<Rightarrow> nat option" where
  "final_globals =
     (\<lambda>v. None)
       (V_closed_positions_df := Some 0,
        V_closed_positions_df_sorted := Some 1,
        V_monthly_pl := Some 2,
        V_instrument_performance := Some 3,
        V_top_10_profitable := Some 4,
        V_bottom_10_losing := Some 5,
        V_profitable_trades := Some 6,
        V_losing_trades := Some 7,
        V_combined_holding := Some 8)"

definition final_summary :: "table \<Rightarrow> metrics" where
  "final_summary df =
     \<lparr>m_total_realized_pl = total_realized_pl df,
      m_total_trades = total_trades df,
      m_profitable_trades_count = profitable_trades_count df,
      m_win_rate = win_rate df,
      m_avg_holding_period = avg_holding_period df\<rparr>"

text \<open>The stable sorts as the library of a run.\<close>

definition stable_lib :: pandas_sort where
  "stable_lib = \<lparr>sort_by_sell_date = stable_sort,
                  sort_by_total_pl_descending = sort_desc,
                  sort_by_total_pl_ascending = sort_asc\<rparr>"

section \<open>Example tables\<close>

definition mk_date :: "int \<Rightarrow> nat \<Rightarrow> nat \<Rightarrow> date" where
  "mk_date y m d = \<lparr>year = y, month = m, day = d\<rparr>"

definition trade :: "string \<Rightarrow> date \<Rightarrow> rat \<Rightarrow> rat \<Rightarrow> closed_position" where
  "trade i d p h =
     \<lparr>instrument = i, sell_date = d, realized_profit_loss = p, holding_period_days = h\<rparr>"

text \<open>The three trades of the specification's example: P/L 100, -50, 25 on increasing dates.\<close>

definition three_trades :: table where
  "three_trades =
     [trade ''AAPL'' (mk_date 2024 1 15) 100 3,
      trade ''TSLA'' (mk_date 2024 2 20) (- 50) 10,
      trade ''AAPL'' (mk_date 2024 4 2) 25 1]"

text \<open>The same three trades in another order of the file.\<close>

definition unsorted_trades :: table where
  "unsorted_trades =
     [trade ''TSLA'' (mk_date 2024 2 20) (- 50) 10,
      trade ''AAPL'' (mk_date 2024 4 2) 25 1,
      trade ''AAPL'' (mk_date 2024 1 15) 100 3]"

text \<open>
  The float64 values that the cells \<^verbatim>\<open>0.1\<close>, \<^verbatim>\<open>0.2\<close> and \<^verbatim>\<open>0.3\<close> of a file are read as,
  the float64 after the one for 0.3, printed \<^verbatim>\<open>0.30000000000000004\<close>, and the two
  float64 values next to six tenths, printed \<^verbatim>\<open>0.6\<close> and \<^verbatim>\<open>0.6000000000000001\<close>.
\<close>

definition f64_0_1 :: rat where "f64_0_1 = 3602879701896397 / 2 ^ 55"

definition f64_0_2 :: rat where "f64_0_2 = 3602879701896397 / 2 ^ 54"

definition f64_0_3 :: rat where "f64_0_3 = 5404319552844595 / 2 ^ 54"

definition f64_0_3_next :: rat where "f64_0_3_next = 5404319552844596 / 2 ^ 54"

definition f64_0_6 :: rat where "f64_0_6 = 5404319552844595 / 2 ^ 53"

definition f64_0_6_next :: rat where "f64_0_6_next = 5404319552844596 / 2 ^ 53"

text \<open>Three trades of 0.1, 0.2 and 0.3, the latest first in the file.\<close>

definition decimal_trades :: table where
  "decimal_trades =
     [trade ''AAPL'' (mk_date 2024 1 3) f64_0_1 1,
      trade ''MSFT'' (mk_date 2024 1 2) f64_0_2 1,
      trade ''TSLA'' (mk_date 2024 1 1) f64_0_3 1]"

text \<open>A trade of 0.1 in January, trades of 0.2 and 0.3 in February, in date order.\<close>

definition two_month_trades :: table where
  "two_month_trades =
     [trade ''AAPL'' (mk_date 2024 1 15) f64_0_1 1,
      trade ''MSFT'' (mk_date 2024 2 10) f64_0_2 1,
      trade ''TSLA'' (mk_date 2024 2 20) f64_0_3 1]"

text \<open>Twenty-two trades in twenty-one instruments.\<close>

definition many_instruments :: table where
  "many_instruments =
     [trade ''TSLA'' (mk_date 2023 1 9) 100 4,
      trade ''AAPL'' (mk_date 2023 1 12) 20 2,
      trade ''NVDA'' (mk_date 2023 2 3) 90 15,
      trade ''AMD'' (mk_date 2023 2 17) (- 100) 30,
      trade ''MSFT'' (mk_date 2023 3 1) 80 7,
      trade ''GME'' (mk_date 2023 3 8) (- 90) 1,
      trade ''AMZN'' (mk_date 2023 3 20) 70 12,
      trade ''NIO'' (mk_date 2023 4 4) (- 80) 21,
      trade ''GOOG'' (mk_date 2023 4 18) 60 9,
      trade ''SNAP'' (mk_date 2023 5 2) (- 70) 3,
      trade ''META'' (mk_date 2023 5 16) 50 5,
      trade ''PLTR'' (mk_date 2023 6 6) (- 60) 11,
      trade ''NFLX'' (mk_date 2023 6 20) 40 8,
      trade ''COIN'' (mk_date 2023 7 5) (- 50) 2,
      trade ''UBER'' (mk_date 2023 7 19) 30 6,
      trade ''BABA'' (mk_date 2023 8 1) (- 40) 40,
      trade ''AAPL'' (mk_date 2023 8 15) (- 10) 4,
      trade ''PYPL'' (mk_date 2023 9 5) (- 30) 13,
      trade ''DIS'' (mk_date 2023 9 19) 5 10,
      trade ''INTC'' (mk_date 2023 10 3) (- 20) 17,
      trade ''BA'' (mk_date 2023 10 17) (- 5) 3,
      trade ''F'' (mk_date 2023 11 7) 0 1]"

section \<open>Win rate\<close>

lemma profitable_trades_count_le: "profitable_trades_count df \<le> total_trades df"
  by (simp add: profitable_trades_count_def total_trades_def)

text \<open>
  Claim C1. The win rate is the number of rows with \<open>realized_profit_loss > 0\<close> divided by
  the number of rows, times 100, when the table has rows, and 0 when it has none; it always
  lies between 0 and 100.
\<close>

theorem win_rate_value_and_range:
  "(0 < length df \<longrightarrow>
      win_rate df =
        of_nat (length (filter (\<lambda>r. realized_profit_loss r > 0) df)) / of_nat (length df) * 100)
   \<and> (length df = 0 \<longrightarrow> win_rate df = 0)
   \<and> 0 \<le> win_rate df \<and> win_rate df \<le> 100"
proof -
  have le: "profitable_trades_count df \<le> total_trades df"
    by (rule profitable_trades_count_le)
  have upper: "win_rate df \<le> 100"
  proof (cases "0 < total_trades df")
    case True
    then have pos: "(0::rat) < of_nat (total_trades df)" by simp
    have "(of_nat (profitable_trades_count df) :: rat) \<le> of_nat (total_trades df)"
      using le by simp
    then have "(of_nat (profitable_trades_count df) :: rat) / of_nat (total_trades df) \<le> 1"
      using pos by (simp add: divide_le_eq)
    then have "(of_nat (profitable_trades_count df) :: rat) / of_nat (total_trades df) * 100
                 \<le> 1 * 100"
      by (rule mult_right_mono) simp
    then show ?thesis unfolding win_rate_def using True by (simp only: if_True mult_1)
  next
    case False
    then show ?thesis by (simp add: win_rate_def)
  qed
  have lower: "0 \<le> win_rate df"
    by (simp add: win_rate_def)
  show ?thesis
    using upper lower
    by (simp add: win_rate_def total_trades_def profitable_trades_count_def)
qed

theorem win_rate_value_and_range_witness:
  "0 < length three_trades \<and> win_rate three_trades = 200 / 3
   \<and> length ([] :: table) = 0 \<and> win_rate [] = 0"
  using win_rate_value_and_range [of three_trades] win_rate_value_and_range [of "[]"]
  by (simp add: three_trades_def trade_def)

section \<open>Holding-period partition\<close>

text \<open>
  Claim C7. Every row of the table is in exactly one of the two subsets: the profitable
  trades are the rows with \<open>realized_profit_loss > 0\<close>, the losing trades the rows with
  \<open>realized_profit_loss \<le> 0\<close>; together they hold every row as often as the table does,
  and their sizes add up to the number of rows.
\<close>

theorem holding_period_partition:
  "mset (profitable_trades df) + mset (losing_trades df) = mset df
   \<and> set (profitable_trades df) \<inter> set (losing_trades df) = {}
   \<and> (\<forall>r \<in> set df. (r \<in> set (profitable_trades df) \<longleftrightarrow> realized_profit_loss r > 0)
                  \<and> (r \<in> set (losing_trades df) \<longleftrightarrow> realized_profit_loss r \<le> 0)
                  \<and> (r \<in> set (profitable_trades df) \<longleftrightarrow> r \<notin> set (losing_trades df)))
   \<and> length (profitable_trades df) + length (losing_trades df) = length df"
proof -
  have compl: "(\<lambda>r. realized_profit_loss r \<le> 0) = (\<lambda>r. \<not> realized_profit_loss r > 0)"
    by (auto simp: fun_eq_iff)
  have m: "mset (profitable_trades df) + mset (losing_trades df) = mset df"
    unfolding profitable_trades_def losing_trades_def compl by simp
  have l: "length (profitable_trades df) + length (losing_trades df) = length df"
    unfolding profitable_trades_def losing_trades_def compl
    by (rule sum_length_filter_compl)
  have d: "set (profitable_trades df) \<inter> set (losing_trades df) = {}"
    by (auto simp: profitable_trades_def losing_trades_def)
  have e: "\<forall>r \<in> set df. (r \<in> set (profitable_trades df) \<longleftrightarrow> realized_profit_loss r > 0)
                  \<and> (r \<in> set (losing_trades df) \<longleftrightarrow> realized_profit_loss r \<le> 0)
                  \<and> (r \<in> set (profitable_trades df) \<longleftrightarrow> r \<notin> set (losing_trades df))"
    by (auto simp: profitable_trades_def losing_trades_def)
  from m d e l show ?thesis by blast
qed

theorem holding_period_partition_witness:
  "profitable_trades three_trades =
     [trade ''AAPL'' (mk_date 2024 1 15) 100 3, trade ''AAPL'' (mk_date 2024 4 2) 25 1]
   \<and> losing_trades three_trades = [trade ''TSLA'' (mk_date 2024 2 20) (- 50) 10]
   \<and> length (profitable_trades three_trades) + length (losing_trades three_trades) = 3"
  using holding_period_partition [of three_trades]
  by (simp add: three_trades_def trade_def profitable_trades_def losing_trades_def)

section \<open>float64 additions that do not round\<close>

lemma bitlen_powi_bounds:
  assumes "0 < p"
  shows "(2::rat) powi (bitlen p - 1) \<le> of_int p" and "of_int p < (2::rat) powi bitlen p"
proof -
  from bitlen_bounds [OF assms]
  have lo: "2 ^ nat (bitlen p - 1) \<le> p" and hi: "p < 2 ^ nat (bitlen p)" by simp_all
  have b1: "1 \<le> bitlen p" using assms by (auto simp: bitlen_alt_def)
  have "(2::rat) powi (bitlen p - 1) = 2 ^ nat (bitlen p - 1)"
    using b1 by (simp add: power_int_def)
  also have "\<dots> = of_int (2 ^ nat (bitlen p - 1))" by simp
  also have "\<dots> \<le> of_int p" using lo by (simp only: of_int_le_iff)
  finally show "(2::rat) powi (bitlen p - 1) \<le> of_int p" .
  have "(of_int p :: rat) < of_int (2 ^ nat (bitlen p))" using hi by (simp only: of_int_less_iff)
  also have "\<dots> = 2 ^ nat (bitlen p)" by simp
  also have "\<dots> = 2 powi bitlen p" using b1 by (simp add: power_int_def)
  finally show "of_int p < (2::rat) powi bitlen p" .
qed

lemma floor_log2_bounds:
  assumes "0 < a"
  shows "2 powi floor_log2 a \<le> a" and "a < 2 powi (floor_log2 a + 1)"
proof -
  obtain p q where pq: "quotient_of a = (p, q)" by (cases "quotient_of a")
  have q: "0 < q" using quotient_of_denom_pos [OF pq] .
  have a: "a = of_int p / of_int q" using quotient_of_div [OF pq] .
  have p: "0 < p" using assms a q by (simp add: zero_less_divide_iff)
  define k where "k = bitlen p - bitlen q"
  note P = bitlen_powi_bounds [OF p] and Q = bitlen_powi_bounds [OF q]
  have qpos: "(0::rat) < of_int q" using q by simp
  have "a * of_int q = of_int p" using a qpos by simp
  have up: "a < 2 powi (k + 1)"
  proof -
    have "of_int p < (2::rat) powi bitlen p" by (rule P(2))
    also have "\<dots> = 2 powi (k + 1) * 2 powi (bitlen q - 1)"
      by (simp add: k_def power_int_add [symmetric])
    also have "\<dots> \<le> 2 powi (k + 1) * of_int q"
      using Q(1) by (intro mult_left_mono) simp_all
    finally have "of_int p < 2 powi (k + 1) * (of_int q :: rat)" .
    then show ?thesis using qpos by (simp add: a pos_divide_less_eq)
  qed
  have "floor_log2 a = (if 2 powi k \<le> a then k else k - 1)"
    by (simp add: floor_log2_def pq k_def Let_def)
  have low: "2 powi (k - 1) \<le> a"
  proof -
    have "2 powi (k - 1) * (of_int q :: rat) \<le> 2 powi (k - 1) * 2 powi bitlen q"
      using Q(2) by (intro mult_left_mono) simp_all
    also have "\<dots> = 2 powi (bitlen p - 1)"
      by (simp add: k_def power_int_add [symmetric])
    also have "\<dots> \<le> of_int p" by (rule P(1))
    finally have "2 powi (k - 1) * (of_int q :: rat) \<le> of_int p" .
    then show ?thesis using qpos by (simp add: a pos_le_divide_eq)
  qed
  have L: "floor_log2 a = (if 2 powi k \<le> a then k else k - 1)"
    by (simp add: floor_log2_def pq k_def Let_def)
  show "2 powi floor_log2 a \<le> a"
    using low by (simp add: L)
  show "a < 2 powi (floor_log2 a + 1)"
    using up by (auto simp: L not_le)
qed

lemma round_half_even_of_int [simp]: "round_half_even (of_int n) = n"
  by (simp add: round_half_even_def)

lemma float64_round_exact:
  assumes "x \<noteq> 0"
    and "\<bar>x\<bar> / 2 powi (max (floor_log2 \<bar>x\<bar> - 52) (- 1074)) \<in> \<int>"
  shows "float64_round x = x"
proof -
  define e where "e = max (floor_log2 \<bar>x\<bar> - 52) (- 1074)"
  from assms(2) obtain n where n: "\<bar>x\<bar> / 2 powi e = of_int n"
    unfolding e_def by (auto elim: Ints_cases)
  have pos: "(0::rat) < 2 powi e" by simp
  have "float64_round x = sgn x * of_int (round_half_even (\<bar>x\<bar> / 2 powi e)) * 2 powi e"
    using assms(1) by (simp add: float64_round_def e_def Let_def)
  also have "\<dots> = sgn x * (\<bar>x\<bar> / 2 powi e) * 2 powi e"
    by (simp add: n)
  also have "\<dots> = sgn x * \<bar>x\<bar>" using pos by simp
  also have "\<dots> = x" by (simp add: sgn_mult_abs)
  finally show ?thesis .
qed

lemma float64_round_int:
  assumes int: "x \<in> \<int>" and bound: "\<bar>x\<bar> \<le> 2 ^ 53"
  shows "float64_round x = x"
proof (cases "x = 0")
  case True
  then show ?thesis by (simp add: float64_round_def)
next
  case False
  define a where "a = \<bar>x\<bar>"
  define L where "L = floor_log2 a"
  from int obtain n where n: "x = of_int n" by (auto elim: Ints_cases)
  have a_int: "a = of_int \<bar>n\<bar>" by (simp add: a_def n)
  have a1: "1 \<le> a" using False by (simp add: a_int n)
  then have a0: "0 < a" by simp
  note B = floor_log2_bounds [OF a0, folded L_def]
  have L0: "0 \<le> L"
  proof (rule ccontr)
    assume "\<not> 0 \<le> L"
    then have "L + 1 \<le> 0" by simp
    then have "(2::rat) powi (L + 1) \<le> 2 powi 0"
      by (intro power_int_increasing) simp_all
    with B(2) a1 show False by simp
  qed
  have L53: "L \<le> 53"
  proof (rule ccontr)
    assume "\<not> L \<le> 53"
    then have "54 \<le> L" by simp
    then have "(2::rat) powi 54 \<le> 2 powi L"
      by (intro power_int_increasing) simp_all
    with B(1) bound show False by (simp add: a_def)
  qed
  have e: "max (L - 52) (- 1074) = L - 52" using L0 by simp
  have "a / 2 powi (L - 52) \<in> \<int>"
  proof (cases "L \<le> 52")
    case True
    have "(2::rat) powi (L - 52) = inverse (2 powi (52 - L))"
      using power_int_minus [of "2::rat" "52 - L"] by simp
    moreover have "(2::rat) powi (52 - L) = 2 ^ nat (52 - L)"
      using True by (simp add: power_int_def)
    ultimately have "(2::rat) powi (L - 52) = inverse (2 ^ nat (52 - L))"
      by simp
    then have "a / 2 powi (L - 52) = of_int (\<bar>n\<bar> * 2 ^ nat (52 - L))"
      by (simp add: a_int divide_inverse)
    then show ?thesis by (metis Ints_of_int)
  next
    case False
    with L53 have L: "L = 53" by simp
    from B(1) bound have "a = 2 ^ 53" by (simp add: L a_def)
    then have "a / 2 powi (L - 52) = of_int (2 ^ 52)" by (simp add: L)
    then show ?thesis by (metis Ints_of_int)
  qed
  then show ?thesis
    using \<open>x \<noteq> 0\<close> by (intro float64_round_exact) (simp_all add: e a_def [symmetric] L_def [symmetric])
qed

lemma f64_add_int:
  assumes "x \<in> \<int>" and "y \<in> \<int>" and "\<bar>x + y\<bar> \<le> 2 ^ 53"
  shows "f64_add x y = x + y"
  unfolding f64_add_def using assms by (intro float64_round_int) simp_all

lemma abs_sum_list_le: "\<bar>sum_list xs\<bar> \<le> sum_list (map abs xs)" for xs :: "rat list"
  by (induction xs) auto

lemma abs_sum_nonneg: "0 \<le> sum_list (map abs xs)" for xs :: "rat list"
  by (induction xs) auto

lemma sum_list_int: "\<forall>x \<in> set xs. x \<in> \<int> \<Longrightarrow> sum_list xs \<in> \<int>" for xs :: "rat list"
  by (induction xs) auto

lemma add_loop_exact:
  assumes "res \<in> \<int>" and "\<forall>x \<in> set xs. x \<in> \<int>"
    and "\<bar>res\<bar> + sum_list (map abs xs) \<le> 2 ^ 53"
  shows "add_loop res xs = res + sum_list xs"
  using assms
proof (induction xs arbitrary: res)
  case Nil
  then show ?case by simp
next
  case (Cons a xs)
  have nn: "0 \<le> sum_list (map abs xs)" by (rule abs_sum_nonneg)
  have "\<bar>res + a\<bar> \<le> \<bar>res\<bar> + \<bar>a\<bar>" by (rule abs_triangle_ineq)
  with Cons.prems(3) nn have b: "\<bar>res + a\<bar> \<le> 2 ^ 53" and
    b': "\<bar>res + a\<bar> + sum_list (map abs xs) \<le> 2 ^ 53" by simp_all
  have e: "f64_add res a = res + a"
    using Cons.prems(1,2) b by (intro f64_add_int) simp_all
  have "add_loop (res + a) xs = res + a + sum_list xs"
    using Cons.prems(1,2) b' by (intro Cons.IH) simp_all
  then show ?case by (simp add: e)
qed

lemma map2_add_exact:
  assumes "\<forall>x \<in> set r. x \<in> \<int>" and "\<forall>x \<in> set b. x \<in> \<int>"
    and "sum_list (map abs r) + sum_list (map abs b) \<le> 2 ^ 53"
  shows "map2 f64_add r b = map2 (+) r b"
  using assms
proof (induction r arbitrary: b)
  case Nil
  then show ?case by simp
next
  case (Cons x r)
  show ?case
  proof (cases b)
    case Nil
    then show ?thesis by simp
  next
    case (Cons y b')
    have nn: "0 \<le> sum_list (map abs r)" "0 \<le> sum_list (map abs b')"
      by (rule abs_sum_nonneg)+
    have "\<bar>x + y\<bar> \<le> \<bar>x\<bar> + \<bar>y\<bar>" by (rule abs_triangle_ineq)
    with Cons.prems(3) nn Cons have "\<bar>x + y\<bar> \<le> 2 ^ 53" by simp
    then have h: "f64_add x y = x + y"
      using Cons.prems(1,2) Cons by (intro f64_add_int) simp_all
    have "sum_list (map abs r) + sum_list (map abs b') \<le> 2 ^ 53"
      using Cons.prems(3) Cons by simp
    then have "map2 f64_add r b' = map2 (+) r b'"
      using Cons.prems(1,2) Cons by (intro Cons.IH) simp_all
    with h Cons show ?thesis by simp
  qed
qed

lemma map2_add_props:
  fixes r b :: "rat list"
  assumes "length r = length b"
  shows "sum_list (map2 (+) r b) = sum_list r + sum_list b"
    and "sum_list (map abs (map2 (+) r b)) \<le> sum_list (map abs r) + sum_list (map abs b)"
    and "(\<forall>x \<in> set r. x \<in> \<int>) \<Longrightarrow> (\<forall>x \<in> set b. x \<in> \<int>) \<Longrightarrow> \<forall>x \<in> set (map2 (+) r b). x \<in> \<int>"
  using assms
proof (induction r b rule: list_induct2)
  case Nil
  { case 1 show ?case by simp }
  { case 2 show ?case by simp }
  { case 3 show ?case by simp }
next
  case (Cons x xs y ys)
  { case 1 from Cons.IH(1) show ?case by simp }
  { case 2
    have "\<bar>x + y\<bar> \<le> \<bar>x\<bar> + \<bar>y\<bar>" by (rule abs_triangle_ineq)
    with Cons.IH(2) show ?case by simp }
  { case 3 with Cons.IH(3) show ?case by simp }
qed

lemma f64_add_exact:
  assumes "x \<in> \<int>" and "y \<in> \<int>" and "\<bar>x\<bar> + \<bar>y\<bar> \<le> 2 ^ 53"
  shows "f64_add x y = x + y"
proof -
  have "\<bar>x + y\<bar> \<le> \<bar>x\<bar> + \<bar>y\<bar>" by (rule abs_triangle_ineq)
  with assms(3) have "\<bar>x + y\<bar> \<le> 2 ^ 53" by simp
  with assms(1,2) show ?thesis by (rule f64_add_int)
qed

lemma add_blocks_exact:
  assumes "length r = 8" and "\<forall>x \<in> set r. x \<in> \<int>" and "\<forall>x \<in> set xs. x \<in> \<int>"
    and "sum_list (map abs r) + sum_list (map abs xs) \<le> 2 ^ 53"
  shows "length (fst (add_blocks r xs)) = 8
    \<and> (\<forall>x \<in> set (fst (add_blocks r xs)). x \<in> \<int>)
    \<and> (\<forall>x \<in> set (snd (add_blocks r xs)). x \<in> \<int>)
    \<and> sum_list (fst (add_blocks r xs)) + sum_list (snd (add_blocks r xs))
          = sum_list r + sum_list xs
    \<and> sum_list (map abs (fst (add_blocks r xs))) + sum_list (map abs (snd (add_blocks r xs)))
          \<le> sum_list (map abs r) + sum_list (map abs xs)"
  using assms
proof (induction r xs rule: add_blocks.induct)
  case (1 r xs)
  show ?case
  proof (cases "length xs < 8")
    case True
    then show ?thesis using "1.prems" by (simp add: add_blocks.simps)
  next
    case False
    define b where "b = take 8 xs"
    define rest where "rest = drop 8 xs"
    have xs: "xs = b @ rest" by (simp add: b_def rest_def)
    have lb: "length b = 8" using False by (simp add: b_def)
    have ib: "\<forall>x \<in> set b. x \<in> \<int>" and ir: "\<forall>x \<in> set rest. x \<in> \<int>"
      using "1.prems"(3) by (auto simp: b_def rest_def dest: in_set_takeD in_set_dropD)
    have sa: "sum_list (map abs xs) = sum_list (map abs b) + sum_list (map abs rest)"
      by (subst xs) simp
    have sl: "sum_list xs = sum_list b + sum_list rest"
      by (subst xs) simp
    have nr: "0 \<le> sum_list (map abs rest)" by (rule abs_sum_nonneg)
    have "sum_list (map abs r) + sum_list (map abs b) \<le> 2 ^ 53"
      using "1.prems"(4) sa nr by simp
    then have m: "map2 f64_add r b = map2 (+) r b"
      using "1.prems"(2) ib by (intro map2_add_exact) simp_all
    have len: "length r = length b" using "1.prems"(1) lb by simp
    note P = map2_add_props [OF len]
    have l2: "length (map2 (+) r b) = 8" using "1.prems"(1) lb by simp
    have i2: "\<forall>x \<in> set (map2 (+) r b). x \<in> \<int>" using P(3) "1.prems"(2) ib by blast
    have b2: "sum_list (map abs (map2 (+) r b)) + sum_list (map abs rest) \<le> 2 ^ 53"
      using P(2) "1.prems"(4) sa by simp
    have step: "add_blocks r xs = add_blocks (map2 (+) r b) rest"
      using False by (subst add_blocks.simps) (simp add: m [unfolded b_def] b_def rest_def)
    note IH = "1.IH" [OF False, unfolded b_def [symmetric] rest_def [symmetric] m, OF l2 i2 ir b2]
    show ?thesis
      unfolding step using IH P(1) P(2) sa sl by simp
  qed
qed

lemma combine8_exact:
  assumes "length r = 8" and "\<forall>x \<in> set r. x \<in> \<int>" and "sum_list (map abs r) \<le> 2 ^ 53"
  shows "combine8 r = sum_list r"
proof -
  from assms(1) obtain r0 r1 r2 r3 r4 r5 r6 r7 where r: "r = [r0, r1, r2, r3, r4, r5, r6, r7]"
    by (auto simp: length_Suc_conv numeral_eq_Suc)
  define a0 a1 a2 a3 a4 a5 a6 a7 where
    a: "a0 = \<bar>r0\<bar>" "a1 = \<bar>r1\<bar>" "a2 = \<bar>r2\<bar>" "a3 = \<bar>r3\<bar>"
       "a4 = \<bar>r4\<bar>" "a5 = \<bar>r5\<bar>" "a6 = \<bar>r6\<bar>" "a7 = \<bar>r7\<bar>"
  have nn: "0 \<le> a0" "0 \<le> a1" "0 \<le> a2" "0 \<le> a3" "0 \<le> a4" "0 \<le> a5" "0 \<le> a6" "0 \<le> a7"
    by (simp_all add: a)
  have tot: "a0 + a1 + a2 + a3 + a4 + a5 + a6 + a7 \<le> 2 ^ 53"
    using assms(3) by (simp add: r a)
  have i: "r0 \<in> \<int>" "r1 \<in> \<int>" "r2 \<in> \<int>" "r3 \<in> \<int>" "r4 \<in> \<int>" "r5 \<in> \<int>" "r6 \<in> \<int>" "r7 \<in> \<int>"
    using assms(2) by (simp_all add: r)
  define s01 s23 s45 s67 where s: "s01 = r0 + r1" "s23 = r2 + r3" "s45 = r4 + r5" "s67 = r6 + r7"
  define t01 t23 t45 t67 where t: "t01 = \<bar>s01\<bar>" "t23 = \<bar>s23\<bar>" "t45 = \<bar>s45\<bar>" "t67 = \<bar>s67\<bar>"
  have tb: "t01 \<le> a0 + a1" "t23 \<le> a2 + a3" "t45 \<le> a4 + a5" "t67 \<le> a6 + a7"
    unfolding t s a by (rule abs_triangle_ineq)+
  have e1: "f64_add r0 r1 = s01" "f64_add r2 r3 = s23" "f64_add r4 r5 = s45" "f64_add r6 r7 = s67"
    unfolding s using i nn tot by (auto intro!: f64_add_exact simp flip: a)
  have si: "s01 \<in> \<int>" "s23 \<in> \<int>" "s45 \<in> \<int>" "s67 \<in> \<int>"
    unfolding s using i by simp_all
  define u v where uv: "u = s01 + s23" "v = s45 + s67"
  define tu tv where tuv: "tu = \<bar>u\<bar>" "tv = \<bar>v\<bar>"
  have tuv_b: "tu \<le> t01 + t23" "tv \<le> t45 + t67"
    unfolding tuv uv t by (rule abs_triangle_ineq)+
  have tn: "0 \<le> t01" "0 \<le> t23" "0 \<le> t45" "0 \<le> t67" by (simp_all add: t)
  have e2: "f64_add s01 s23 = u" "f64_add s45 s67 = v"
    unfolding uv using si tb tn nn tot by (auto intro!: f64_add_exact simp flip: t)
  have ui: "u \<in> \<int>" "v \<in> \<int>" unfolding uv using si by simp_all
  have e3: "f64_add u v = u + v"
    using ui tuv_b tb nn tot by (auto intro!: f64_add_exact simp flip: tuv)
  show ?thesis
    by (simp add: combine8_def r e1 e2 e3) (simp add: uv s)
qed

lemma unrolled_sum_exact:
  assumes "8 \<le> length xs" and "\<forall>x \<in> set xs. x \<in> \<int>" and "sum_list (map abs xs) \<le> 2 ^ 53"
  shows "unrolled_sum xs = sum_list xs"
proof -
  define r where "r = take 8 xs"
  define ys where "ys = drop 8 xs"
  have xs: "xs = r @ ys" by (simp add: r_def ys_def)
  have lr: "length r = 8" using assms(1) by (simp add: r_def)
  have ir: "\<forall>x \<in> set r. x \<in> \<int>" and iy: "\<forall>x \<in> set ys. x \<in> \<int>"
    using assms(2) by (auto simp: r_def ys_def dest: in_set_takeD in_set_dropD)
  have sa: "sum_list (map abs xs) = sum_list (map abs r) + sum_list (map abs ys)"
    by (subst xs) simp
  have sl: "sum_list xs = sum_list r + sum_list ys" by (subst xs) simp
  have b: "sum_list (map abs r) + sum_list (map abs ys) \<le> 2 ^ 53" using assms(3) sa by simp
  define r' where "r' = fst (add_blocks r ys)"
  define rest where "rest = snd (add_blocks r ys)"
  note A = add_blocks_exact [OF lr ir iy b, folded r'_def rest_def]
  have nrest: "0 \<le> sum_list (map abs rest)" and nr': "0 \<le> sum_list (map abs r')"
    by (rule abs_sum_nonneg)+
  have c: "combine8 r' = sum_list r'"
    using A b nrest by (intro combine8_exact) simp_all
  have "\<bar>sum_list r'\<bar> \<le> sum_list (map abs r')" by (rule abs_sum_list_le)
  then have "add_loop (sum_list r') rest = sum_list r' + sum_list rest"
    using A b by (intro add_loop_exact) (simp_all add: sum_list_int)
  then have "unrolled_sum xs = sum_list r' + sum_list rest"
    by (simp add: unrolled_sum_def r_def [symmetric] ys_def [symmetric] split_beta
        r'_def [symmetric] rest_def [symmetric] c)
  with A sl show ?thesis by simp
qed

lemma pairwise_sum_exact:
  assumes "\<forall>x \<in> set xs. x \<in> \<int>" and "sum_list (map abs xs) \<le> 2 ^ 53"
  shows "pairwise_sum xs = sum_list xs"
  using assms
proof (induction xs rule: pairwise_sum.induct)
  case (1 xs)
  show ?case
  proof (cases "length xs < 8")
    case True
    have "add_loop 0 xs = 0 + sum_list xs"
      using "1.prems" by (intro add_loop_exact) simp_all
    with True show ?thesis by (subst pairwise_sum.simps) simp
  next
    case False
    show ?thesis
    proof (cases "length xs \<le> 128")
      case True
      have "unrolled_sum xs = sum_list xs"
        using False "1.prems" by (intro unrolled_sum_exact) simp_all
      with True False show ?thesis by (subst pairwise_sum.simps) simp
    next
      case big: False
      define n2 where "n2 = length xs div 2 - (length xs div 2) mod 8"
      define l where "l = take n2 xs"
      define h where "h = drop n2 xs"
      have xs: "xs = l @ h" by (simp add: l_def h_def)
      have il: "\<forall>x \<in> set l. x \<in> \<int>" and ih: "\<forall>x \<in> set h. x \<in> \<int>"
        using "1.prems"(1) by (auto simp: l_def h_def dest: in_set_takeD in_set_dropD)
      have sa: "sum_list (map abs xs) = sum_list (map abs l) + sum_list (map abs h)"
        by (subst xs) simp
      have sl: "sum_list xs = sum_list l + sum_list h" by (subst xs) simp
      have nl: "0 \<le> sum_list (map abs l)" and nh: "0 \<le> sum_list (map abs h)"
        by (rule abs_sum_nonneg)+
      have bl: "sum_list (map abs l) \<le> 2 ^ 53" and bh: "sum_list (map abs h) \<le> 2 ^ 53"
        using "1.prems"(2) sa nl nh by simp_all
      have pl: "pairwise_sum l = sum_list l"
        using "1.IH"(1) [OF False big, folded n2_def, folded l_def, OF il bl] .
      have ph: "pairwise_sum h = sum_list h"
        using "1.IH"(2) [OF False big, folded n2_def, folded h_def, OF ih bh] .
      have "\<bar>sum_list l\<bar> + \<bar>sum_list h\<bar> \<le> 2 ^ 53"
        using abs_sum_list_le [of l] abs_sum_list_le [of h] "1.prems"(2) sa by simp
      then have "f64_add (sum_list l) (sum_list h) = sum_list l + sum_list h"
        using il ih by (intro f64_add_exact) (simp_all add: sum_list_int)
      then have "pairwise_sum xs = sum_list l + sum_list h"
        using False big
        by (subst pairwise_sum.simps) (simp add: n2_def [symmetric] l_def [symmetric] h_def [symmetric] pl ph)
      with sl show ?thesis by simp
    qed
  qed
qed

lemma series_sum_exact:
  assumes "whole_amounts xs"
  shows "series_sum xs = sum_list xs"
proof -
  from assms have i: "\<forall>x \<in> set xs. x \<in> \<int>" and b: "sum_list (map abs xs) \<le> 2 ^ 53"
    by (simp_all add: whole_amounts_def)
  have p: "pairwise_sum xs = sum_list xs" using i b by (rule pairwise_sum_exact)
  have "\<bar>sum_list xs\<bar> \<le> 2 ^ 53" using abs_sum_list_le [of xs] b by simp
  then have "f64_add 0 (sum_list xs) = 0 + sum_list xs"
    using i by (intro f64_add_int) (simp_all add: sum_list_int)
  then show ?thesis by (simp add: series_sum_def p)
qed

lemma series_sum_Nil [simp]: "series_sum [] = 0"
  by (simp add: series_sum_def pairwise_sum.simps f64_add_def float64_round_def)

section \<open>Chronological P/L series\<close>

lemma length_cumsum_from [simp]: "length (cumsum_from acc xs) = length xs"
  by (induction xs arbitrary: acc) auto

lemma length_cumsum [simp]: "length (cumsum xs) = length xs"
  by (simp add: cumsum_def split: list.splits)

lemma cumsum_from_nth_Suc:
  "Suc i < length xs \<Longrightarrow>
     cumsum_from acc xs ! Suc i = f64_add (cumsum_from acc xs ! i) (xs ! Suc i)"
proof (induction xs arbitrary: acc i)
  case Nil
  then show ?case by simp
next
  case (Cons x xs)
  show ?case
  proof (cases i)
    case 0
    with Cons.prems show ?thesis by (cases xs) simp_all
  next
    case (Suc j)
    with Cons.prems have "Suc j < length xs" by simp
    from Cons.IH [OF this, of "f64_add acc x"] Suc show ?thesis by simp
  qed
qed

lemma cumsum_nth_0: "xs \<noteq> [] \<Longrightarrow> cumsum xs ! 0 = xs ! 0"
  by (cases xs) (simp_all add: cumsum_def)

lemma cumsum_nth_Suc:
  assumes "Suc i < length xs"
  shows "cumsum xs ! Suc i = f64_add (cumsum xs ! i) (xs ! Suc i)"
proof (cases xs)
  case Nil
  with assms show ?thesis by simp
next
  case (Cons x rest)
  show ?thesis
  proof (cases i)
    case 0
    with assms Cons show ?thesis by (cases rest) (simp_all add: cumsum_def)
  next
    case (Suc j)
    with assms Cons have "Suc j < length rest" by simp
    from cumsum_from_nth_Suc [OF this, of x] Suc Cons show ?thesis
      by (simp add: cumsum_def)
  qed
qed

lemma cumsum_from_exact:
  assumes "acc \<in> \<int>" and "\<forall>x \<in> set xs. x \<in> \<int>"
    and "\<bar>acc\<bar> + sum_list (map abs xs) \<le> 2 ^ 53" and "i < length xs"
  shows "cumsum_from acc xs ! i = acc + sum_list (take (Suc i) xs)"
  using assms
proof (induction xs arbitrary: acc i)
  case Nil
  then show ?case by simp
next
  case (Cons x xs)
  have nn: "0 \<le> sum_list (map abs xs)" by (rule abs_sum_nonneg)
  have "\<bar>acc\<bar> + \<bar>x\<bar> \<le> 2 ^ 53" using Cons.prems(3) nn by simp
  then have e: "f64_add acc x = acc + x"
    using Cons.prems(1,2) by (intro f64_add_exact) simp_all
  show ?case
  proof (cases i)
    case 0
    then show ?thesis by (simp add: e)
  next
    case (Suc j)
    have "\<bar>acc + x\<bar> \<le> \<bar>acc\<bar> + \<bar>x\<bar>" by (rule abs_triangle_ineq)
    then have b: "\<bar>acc + x\<bar> + sum_list (map abs xs) \<le> 2 ^ 53"
      using Cons.prems(3) by simp
    have "cumsum_from (acc + x) xs ! j = acc + x + sum_list (take (Suc j) xs)"
      using Cons.prems(1,2,4) b Suc by (intro Cons.IH) simp_all
    with Suc show ?thesis by (simp add: e)
  qed
qed

lemma cumsum_exact:
  assumes "whole_amounts xs" and "i < length xs"
  shows "cumsum xs ! i = sum_list (take (Suc i) xs)"
proof (cases xs)
  case Nil
  with assms show ?thesis by simp
next
  case (Cons x rest)
  from assms(1) Cons have ints: "x \<in> \<int>" "\<forall>y \<in> set rest. y \<in> \<int>"
    and b: "\<bar>x\<bar> + sum_list (map abs rest) \<le> 2 ^ 53"
    by (simp_all add: whole_amounts_def)
  show ?thesis
  proof (cases i)
    case 0
    with Cons show ?thesis by (simp add: cumsum_def)
  next
    case (Suc j)
    with assms(2) Cons have "j < length rest" by simp
    from cumsum_from_exact [OF ints b this] Suc Cons show ?thesis
      by (simp add: cumsum_def)
  qed
qed

lemma cumsum_whole:
  assumes "whole_amounts xs"
  shows "cumsum xs = map (\<lambda>i. sum_list (take (Suc i) xs)) [0..<length xs]"
  by (rule nth_equalityI) (simp_all add: cumsum_exact [OF assms])

lemma last_cumsum_exact:
  assumes "whole_amounts xs" and "xs \<noteq> []"
  shows "last (cumsum xs) = sum_list xs"
proof -
  from assms(2) have "cumsum xs \<noteq> []" by (metis length_cumsum length_0_conv)
  then have "last (cumsum xs) = cumsum xs ! (length xs - 1)"
    by (simp add: last_conv_nth)
  also have "\<dots> = sum_list (take (Suc (length xs - 1)) xs)"
    using assms by (intro cumsum_exact) simp_all
  also have "\<dots> = sum_list xs" using assms(2) by simp
  finally show ?thesis .
qed

lemma map_fst_sorted [simp]:
  "map fst (closed_positions_df_sorted srt df) = srt df"
  by (simp add: closed_positions_df_sorted_def Let_def)

lemma map_snd_sorted [simp]:
  "map snd (closed_positions_df_sorted srt df) = cumsum (map realized_profit_loss (srt df))"
  by (simp add: closed_positions_df_sorted_def Let_def)

lemma sum_list_mset_eq:
  fixes xs ys :: "'a list" and f :: "'a \<Rightarrow> rat"
  assumes "mset ys = mset xs"
  shows "sum_list (map f ys) = sum_list (map f xs)"
proof -
  have "sum_mset (image_mset f (mset ys)) = sum_mset (image_mset f (mset xs))"
    using assms by simp
  then show ?thesis by (simp add: sum_mset_sum_list flip: mset_map)
qed

lemma whole_amounts_mset:
  assumes "mset ys = mset xs"
  shows "whole_amounts (map f ys) = whole_amounts (map f xs)"
proof -
  from assms have "set ys = set xs" by (metis set_mset_mset)
  moreover have "sum_list (map abs (map f ys)) = sum_list (map abs (map f xs))"
    using sum_list_mset_eq [OF assms, of "\<lambda>r. \<bar>f r\<bar>"] by (simp add: comp_def)
  ultimately show ?thesis by (simp add: whole_amounts_def)
qed

lemmas example_defs =
  three_trades_def unsorted_trades_def decimal_trades_def two_month_trades_def
  trade_def mk_date_def by_sell_date_def date_key_def

lemma sort_key_ok: "sort_values_ok key xs (sort_key key xs)"
  by (simp add: sort_values_ok_def)

lemma f64_decimal_sums:
  "f64_add 0 f64_0_1 = f64_0_1"
  "f64_add f64_0_1 f64_0_2 = f64_0_3_next"
  "f64_add f64_0_3_next f64_0_3 = f64_0_6_next"
  "f64_add f64_0_3 f64_0_2 = 1 / 2"
  "f64_add (1 / 2) f64_0_1 = f64_0_6"
  "f64_add f64_0_1 (1 / 2) = f64_0_6"
  "f64_add 0 f64_0_6_next = f64_0_6_next"
  by code_simp+

lemma f64_0_6_neq: "f64_0_6 \<noteq> f64_0_6_next"
  by (simp add: f64_0_6_def f64_0_6_next_def)

lemma decimal_trades_sorted:
  "stable_sort decimal_trades =
     [trade ''TSLA'' (mk_date 2024 1 1) f64_0_3 1,
      trade ''MSFT'' (mk_date 2024 1 2) f64_0_2 1,
      trade ''AAPL'' (mk_date 2024 1 3) f64_0_1 1]"
  by (simp add: stable_sort_def example_defs)

lemma series_sum_decimals: "series_sum [f64_0_1, f64_0_2, f64_0_3] = f64_0_6_next"
  by (simp add: series_sum_def pairwise_sum.simps f64_decimal_sums)



lemma unsorted_trades_whole: "whole_amounts (map realized_profit_loss unsorted_trades)"
  by (simp add: whole_amounts_def unsorted_trades_def trade_def)

lemma three_trades_whole: "whole_amounts (map realized_profit_loss three_trades)"
  by (simp add: whole_amounts_def three_trades_def trade_def)

lemma cumsum_three: "cumsum [100, - 50, 25] = [100, 50, 75]"
proof -
  have "whole_amounts [100, - 50, 25]" by (simp add: whole_amounts_def)
  from cumsum_whole [OF this] show ?thesis by (simp add: upt_rec)
qed


section \<open>Monthly P/L series\<close>

lemma fold_min_hd:
  fixes ks :: "int list"
  assumes "ks \<noteq> []"
  shows "fold min ks (hd ks) = Min (set ks)"
proof (cases ks)
  case Nil
  with assms show ?thesis by simp
next
  case (Cons a list)
  have "Min (set (a # list)) = fold min list a" by (rule Min.set_eq_fold)
  with Cons show ?thesis by simp
qed

lemma fold_max_hd:
  fixes ks :: "int list"
  assumes "ks \<noteq> []"
  shows "fold max ks (hd ks) = Max (set ks)"
proof (cases ks)
  case Nil
  with assms show ?thesis by simp
next
  case (Cons a list)
  have "Max (set (a # list)) = fold max list a" by (rule Max.set_eq_fold)
  with Cons show ?thesis by simp
qed

lemma sum_list_indicator:
  fixes c :: rat
  shows "distinct ks \<Longrightarrow> (\<Sum>k\<leftarrow>ks. if a = k then c else 0) = (if a \<in> set ks then c else 0)"
  by (induction ks) auto

lemma sum_list_buckets:
  fixes g :: "'a \<Rightarrow> rat"
  assumes "distinct ks" and "\<forall>x \<in> set xs. f x \<in> set ks"
  shows "(\<Sum>k\<leftarrow>ks. sum_list (map g (filter (\<lambda>x. f x = k) xs))) = sum_list (map g xs)"
  using assms(2)
proof (induction xs)
  case Nil
  then show ?case by simp
next
  case (Cons x xs)
  have "(\<Sum>k\<leftarrow>ks. sum_list (map g (filter (\<lambda>y. f y = k) (x # xs))))
      = (\<Sum>k\<leftarrow>ks. (if f x = k then g x else 0) + sum_list (map g (filter (\<lambda>y. f y = k) xs)))"
    by (rule arg_cong [where f = sum_list]) simp
  also have "\<dots> = (\<Sum>k\<leftarrow>ks. if f x = k then g x else 0)
                  + (\<Sum>k\<leftarrow>ks. sum_list (map g (filter (\<lambda>y. f y = k) xs)))"
    by (simp add: sum_list_addf)
  also have "(\<Sum>k\<leftarrow>ks. if f x = k then g x else 0) = g x"
    using Cons.prems assms(1) by (simp add: sum_list_indicator)
  also have "(\<Sum>k\<leftarrow>ks. sum_list (map g (filter (\<lambda>y. f y = k) xs))) = sum_list (map g xs)"
    using Cons by simp
  finally show ?case by simp
qed

lemma resample_nonempty: "xs \<noteq> [] \<Longrightarrow> resample_ME_sum xs \<noteq> []"
proof -
  assume ne: "xs \<noteq> []"
  let ?ks = "map (month_index \<circ> fst) xs"
  have kne: "?ks \<noteq> []" using ne by simp
  have fin: "finite (set ?ks)" and sne: "set ?ks \<noteq> {}" using ne by simp_all
  have "Min (set ?ks) \<le> Max (set ?ks)"
    using fin sne by (meson Max_ge Min_in)
  then have "[Min (set ?ks)..Max (set ?ks)] \<noteq> []" by simp
  then show ?thesis
    using ne unfolding resample_ME_sum_def Let_def fold_min_hd [OF kne] fold_max_hd [OF kne]
    by simp
qed

lemma resample_sum_total:
  "sum_list (map m_realized_profit_loss (resample_ME_sum xs)) = sum_list (map snd xs)"
proof (cases "xs = []")
  case True
  then show ?thesis by (simp add: resample_ME_sum_def)
next
  case False
  let ?ks = "map (month_index \<circ> fst) xs"
  have kne: "?ks \<noteq> []" using False by simp
  have in_range: "\<forall>x \<in> set xs. month_index (fst x) \<in> set [Min (set ?ks)..Max (set ?ks)]"
    by (auto intro!: Min_le Max_ge)
  have "sum_list (map m_realized_profit_loss (resample_ME_sum xs))
      = (\<Sum>k\<leftarrow>[Min (set ?ks)..Max (set ?ks)].
            sum_list (map snd (filter (\<lambda>x. month_index (fst x) = k) xs)))"
    using False unfolding resample_ME_sum_def Let_def fold_min_hd [OF kne] fold_max_hd [OF kne]
    by (simp add: comp_def)
  also have "\<dots> = sum_list (map snd xs)"
    by (rule sum_list_buckets) (use in_range in simp_all)
  finally show ?thesis .
qed

lemma chrono_nonempty:
  assumes ok: "sort_values_ok by_sell_date df (sort_values df)" and ne: "df \<noteq> []"
  shows "closed_positions_df_sorted sort_values df \<noteq> []"
proof -
  from ok have "mset (sort_values df) = mset df" by (simp add: sort_values_ok_def)
  with ne have "sort_values df \<noteq> []" by auto
  moreover have "length (closed_positions_df_sorted sort_values df) = length (sort_values df)"
    by (simp add: closed_positions_df_sorted_def Let_def)
  ultimately show ?thesis by auto
qed

lemma chrono_last_total:
  assumes ok: "sort_values_ok by_sell_date df (sort_values df)" and ne: "df \<noteq> []"
    and w: "whole_amounts (map realized_profit_loss df)"
  shows "snd (last (closed_positions_df_sorted sort_values df))
           = sum_list (map realized_profit_loss df)"
proof -
  let ?s = "sort_values df" and ?c = "closed_positions_df_sorted sort_values df"
  from ok have perm: "mset ?s = mset df" by (simp add: sort_values_ok_def)
  with ne have sne: "?s \<noteq> []" by auto
  have wp: "whole_amounts (map realized_profit_loss ?s)"
    using w by (simp add: whole_amounts_mset [OF perm])
  have cne: "?c \<noteq> []" using ok ne by (rule chrono_nonempty)
  have "snd (last ?c) = last (map snd ?c)" using cne by (rule last_map [symmetric])
  also have "\<dots> = sum_list (map realized_profit_loss ?s)"
    using wp sne by (simp add: last_cumsum_exact)
  also have "\<dots> = sum_list (map realized_profit_loss df)"
    by (rule sum_list_mset_eq [OF perm])
  finally show ?thesis .
qed

lemma chrono_columns:
  "map (\<lambda>(r, c). (sell_date r, realized_profit_loss r)) (closed_positions_df_sorted srt df)
     = dated_pl (srt df)"
proof -
  have "map (\<lambda>(r, c). (sell_date r, realized_profit_loss r)) (closed_positions_df_sorted srt df)
      = map ((\<lambda>r. (sell_date r, realized_profit_loss r)) \<circ> fst) (closed_positions_df_sorted srt df)"
    by (rule map_cong) auto
  also have "\<dots> = map (\<lambda>r. (sell_date r, realized_profit_loss r))
                      (map fst (closed_positions_df_sorted srt df))"
    by (simp only: map_map)
  finally show ?thesis by (simp add: dated_pl_def)
qed

lemma map_fst_monthly:
  "map fst (monthly_pl srt df) = resample_ME_sum (dated_pl (srt df))"
  by (simp add: monthly_pl_def Let_def chrono_columns)

lemma map_snd_monthly:
  "map snd (monthly_pl srt df)
     = cumsum (map m_realized_profit_loss (resample_ME_sum (dated_pl (srt df))))"
  by (simp add: monthly_pl_def Let_def chrono_columns)

lemma monthly_nonempty:
  assumes ok: "sort_values_ok by_sell_date df (sort_values df)" and ne: "df \<noteq> []"
  shows "monthly_pl sort_values df \<noteq> []"
proof -
  let ?s = "sort_values df" and ?m = "monthly_pl sort_values df"
  from ok have perm: "mset ?s = mset df" by (simp add: sort_values_ok_def)
  with ne have sne: "?s \<noteq> []" by auto
  then have dne: "dated_pl ?s \<noteq> []" by (simp add: dated_pl_def)
  then have rne: "resample_ME_sum (dated_pl ?s) \<noteq> []" by (rule resample_nonempty)
  moreover have "length ?m = length (resample_ME_sum (dated_pl ?s))"
    by (metis map_fst_monthly length_map)
  ultimately show "?m \<noteq> []" by auto
qed

lemma resample_whole:
  assumes "whole_amounts (map snd xs)"
  shows "whole_amounts (map m_realized_profit_loss (resample_ME_sum xs))"
proof (cases "xs = []")
  case True
  then show ?thesis by (simp add: resample_ME_sum_def whole_amounts_def)
next
  case False
  let ?ks = "map (month_index \<circ> fst) xs"
  let ?range = "[Min (set ?ks)..Max (set ?ks)]"
  let ?bucket = "\<lambda>k. filter (\<lambda>x. month_index (fst x) = k) xs"
  from assms have ints: "\<forall>x \<in> set xs. snd x \<in> \<int>"
    and bound: "sum_list (map (\<lambda>x. \<bar>snd x\<bar>) xs) \<le> 2 ^ 53"
    by (simp_all add: whole_amounts_def comp_def)
  have kne: "?ks \<noteq> []" using False by simp
  have in_range: "\<forall>x \<in> set xs. month_index (fst x) \<in> set ?range"
    by (auto intro!: Min_le Max_ge)
  have eq: "map m_realized_profit_loss (resample_ME_sum xs)
      = map (\<lambda>k. sum_list (map snd (?bucket k))) ?range"
    using False unfolding resample_ME_sum_def Let_def fold_min_hd [OF kne] fold_max_hd [OF kne]
    by (simp add: comp_def)
  have i: "\<forall>y \<in> set (map (\<lambda>k. sum_list (map snd (?bucket k))) ?range). y \<in> \<int>"
    using ints by (auto intro!: sum_list_int)
  have "sum_list (map abs (map (\<lambda>k. sum_list (map snd (?bucket k))) ?range))
      = (\<Sum>k\<leftarrow>?range. \<bar>sum_list (map snd (?bucket k))\<bar>)"
    by (simp add: comp_def)
  also have "\<dots> \<le> (\<Sum>k\<leftarrow>?range. sum_list (map (\<lambda>x. \<bar>snd x\<bar>) (?bucket k)))"
  proof (rule sum_list_mono)
    fix k
    have "\<bar>sum_list (map snd (?bucket k))\<bar> \<le> sum_list (map abs (map snd (?bucket k)))"
      by (rule abs_sum_list_le)
    then show "\<bar>sum_list (map snd (?bucket k))\<bar> \<le> sum_list (map (\<lambda>x. \<bar>snd x\<bar>) (?bucket k))"
      by (simp add: comp_def)
  qed
  also have "\<dots> = sum_list (map (\<lambda>x. \<bar>snd x\<bar>) xs)"
    by (rule sum_list_buckets) (use in_range in simp_all)
  finally have "sum_list (map abs (map (\<lambda>k. sum_list (map snd (?bucket k))) ?range)) \<le> 2 ^ 53"
    using bound by simp
  with i show ?thesis unfolding eq whole_amounts_def by blast
qed

lemma monthly_last_total:
  assumes ok: "sort_values_ok by_sell_date df (sort_values df)" and ne: "df \<noteq> []"
    and w: "whole_amounts (map realized_profit_loss df)"
  shows "snd (last (monthly_pl sort_values df)) = sum_list (map realized_profit_loss df)"
proof -
  let ?s = "sort_values df" and ?m = "monthly_pl sort_values df"
  let ?b = "map m_realized_profit_loss (resample_ME_sum (dated_pl ?s))"
  from ok have perm: "mset ?s = mset df" by (simp add: sort_values_ok_def)
  with ne have sne: "?s \<noteq> []" by auto
  then have dne: "dated_pl ?s \<noteq> []" by (simp add: dated_pl_def)
  then have rne: "?b \<noteq> []" by (simp add: resample_nonempty)
  have snd_d: "map snd (dated_pl ?s) = map realized_profit_loss ?s"
    by (simp add: dated_pl_def comp_def)
  have "whole_amounts (map realized_profit_loss ?s)"
    using w by (simp add: whole_amounts_mset [OF perm])
  then have wb: "whole_amounts ?b"
    by (intro resample_whole) (simp add: snd_d)
  have mne: "?m \<noteq> []" using ok ne by (rule monthly_nonempty)
  have "snd (last ?m) = last (map snd ?m)" using mne by (rule last_map [symmetric])
  also have "\<dots> = last (cumsum ?b)" by (simp only: map_snd_monthly)
  also have "\<dots> = sum_list ?b" using wb rne by (rule last_cumsum_exact)
  also have "\<dots> = sum_list (map snd (dated_pl ?s))" by (rule resample_sum_total)
  also have "\<dots> = sum_list (map realized_profit_loss ?s)" by (simp only: snd_d)
  also have "\<dots> = sum_list (map realized_profit_loss df)"
    by (rule sum_list_mset_eq [OF perm])
  finally show ?thesis .
qed

lemma three_trades_sorted_ok: "sort_values_ok by_sell_date three_trades (stable_sort three_trades)"
  unfolding stable_sort_def by (rule sort_key_ok)

lemma two_month_sorted: "stable_sort two_month_trades = two_month_trades"
  by (simp add: stable_sort_def example_defs)




section \<open>Months covered by the monthly series\<close>

lemma month_index_mono:
  assumes "valid_date d1" and "valid_date d2" and "date_key d1 \<le> date_key d2"
  shows "month_index d1 \<le> month_index d2"
proof -
  from assms(3) have "year d1 < year d2 \<or> (year d1 = year d2 \<and> month d1 \<le> month d2)"
    by (auto simp: date_key_def)
  moreover have "int (month d1) \<le> 12" "1 \<le> int (month d2)"
    using assms(1,2) by (simp_all add: valid_date_def)
  ultimately show ?thesis unfolding month_index_def by linarith
qed

lemma month_end_month_index:
  assumes "valid_date d"
  shows "year (month_end (month_index d)) = year d"
    and "month (month_end (month_index d)) = month d"
proof -
  obtain j :: int where j: "int (month d) - 1 = j" and r: "0 \<le> j" "j < 12"
    using assms by (auto simp: valid_date_def)
  have k: "month_index d = j + year d * 12" unfolding month_index_def using j by simp
  have "(j + year d * 12) div 12 = year d" using r by simp
  then show "year (month_end (month_index d)) = year d" by (simp add: month_end_def k)
  have "(j + year d * 12) mod 12 = j" using r by simp
  then show "month (month_end (month_index d)) = month d"
    using j r by (simp add: month_end_def k)
qed

lemma pl_in_month_sorted:
  assumes perm: "mset s = mset df"
  shows "sum_list (map snd (filter (\<lambda>x. month_index (fst x) = k) (dated_pl s))) = pl_in_month k df"
proof -
  have "filter (\<lambda>x. month_index (fst x) = k) (dated_pl s)
      = dated_pl (filter (\<lambda>r. month_index (sell_date r) = k) s)"
    by (simp add: dated_pl_def filter_map comp_def)
  then have "sum_list (map snd (filter (\<lambda>x. month_index (fst x) = k) (dated_pl s)))
      = sum_list (map realized_profit_loss (filter (\<lambda>r. month_index (sell_date r) = k) s))"
    by (simp add: dated_pl_def comp_def)
  also have "\<dots> = pl_in_month k df"
    unfolding pl_in_month_def
    by (rule sum_list_mset_eq) (simp add: perm)
  finally show ?thesis .
qed

lemma resample_range:
  assumes perm: "mset s = mset df" and ne: "df \<noteq> []"
    and valid: "\<forall>r \<in> set df. valid_date (sell_date r)"
    and e: "earliest_in df e" and l: "latest_in df l"
  shows "resample_ME_sum (dated_pl s)
    = map (\<lambda>k. \<lparr>m_sell_date = month_end k, m_realized_profit_loss = pl_in_month k df\<rparr>)
          [month_index (sell_date e)..month_index (sell_date l)]"
proof -
  let ?ks = "map (month_index \<circ> fst) (dated_pl s)"
  from perm have sets: "set s = set df" by (metis set_mset_mset)
  from perm ne have sne: "s \<noteq> []" by auto
  then have dne: "dated_pl s \<noteq> []" and kne: "?ks \<noteq> []" by (simp_all add: dated_pl_def)
  have setk: "set ?ks = (\<lambda>r. month_index (sell_date r)) ` set df"
    by (auto simp: dated_pl_def sets [symmetric])
  have lo: "Min (set ?ks) = month_index (sell_date e)"
  proof (rule Min_eqI)
    show "finite (set ?ks)" by simp
    show "month_index (sell_date e) \<in> set ?ks"
      unfolding setk using e by (simp add: earliest_in_def)
    fix y assume "y \<in> set ?ks"
    then obtain r where r: "r \<in> set df" "y = month_index (sell_date r)"
      unfolding setk by auto
    with e valid show "month_index (sell_date e) \<le> y"
      by (auto simp: earliest_in_def by_sell_date_def intro!: month_index_mono)
  qed
  have hi: "Max (set ?ks) = month_index (sell_date l)"
  proof (rule Max_eqI)
    show "finite (set ?ks)" by simp
    show "month_index (sell_date l) \<in> set ?ks"
      unfolding setk using l by (simp add: latest_in_def)
    fix y assume "y \<in> set ?ks"
    then obtain r where r: "r \<in> set df" "y = month_index (sell_date r)"
      unfolding setk by auto
    with l valid show "y \<le> month_index (sell_date l)"
      by (auto simp: latest_in_def by_sell_date_def intro!: month_index_mono)
  qed
  show ?thesis
    using dne
    unfolding resample_ME_sum_def Let_def fold_min_hd [OF kne] fold_max_hd [OF kne] lo hi
    by (simp add: pl_in_month_sorted [OF perm])
qed


lemma month_index_month_end: "month_index (month_end k) = k"
proof -
  have "0 \<le> k mod 12" by simp
  then have "int (nat (k mod 12) + 1) = k mod 12 + 1" by simp
  then show ?thesis
    unfolding month_index_def month_end_def by (simp add: mult.commute)
qed

text \<open>
  Claim C10. For a table with at least one row (of valid calendar dates), the monthly
  series has one bucket for each calendar month from the month of the earliest
  \<open>sell_date\<close> to the month of the latest, in order; the bucket of a month holds the sum
  of \<open>realized_profit_loss\<close> of the rows sold in it, which is 0 for a month in that range
  without trades. So there can be more buckets than months with trades: the three example
  trades of January, February and April give four buckets.
\<close>

theorem monthly_buckets_cover_range:
  assumes ok: "sort_values_ok by_sell_date df (sort_values df)"
    and ne: "df \<noteq> []"
    and valid: "\<forall>r \<in> set df. valid_date (sell_date r)"
    and e: "earliest_in df e"
    and l: "latest_in df l"
  shows "map (month_index \<circ> m_sell_date \<circ> fst) (monthly_pl sort_values df)
           = [month_index (sell_date e)..month_index (sell_date l)]
    \<and> map fst (monthly_pl sort_values df)
           = map (\<lambda>k. \<lparr>m_sell_date = month_end k, m_realized_profit_loss = pl_in_month k df\<rparr>)
                 [month_index (sell_date e)..month_index (sell_date l)]
    \<and> (\<forall>k. month_index (sell_date e) \<le> k \<and> k \<le> month_index (sell_date l)
             \<and> (\<forall>r \<in> set df. month_index (sell_date r) \<noteq> k)
           \<longrightarrow> \<lparr>m_sell_date = month_end k, m_realized_profit_loss = 0\<rparr>
                 \<in> set (map fst (monthly_pl sort_values df)))
    \<and> length (monthly_pl stable_sort three_trades) = 4
    \<and> card ((\<lambda>r. month_index (sell_date r)) ` set three_trades) = 3"
proof -
  let ?lo = "month_index (sell_date e)" and ?hi = "month_index (sell_date l)"
  let ?row = "\<lambda>k. \<lparr>m_sell_date = month_end k, m_realized_profit_loss = pl_in_month k df\<rparr>"
  from ok have perm: "mset (sort_values df) = mset df" by (simp add: sort_values_ok_def)
  have rows: "map fst (monthly_pl sort_values df) = map ?row [?lo..?hi]"
    unfolding map_fst_monthly by (rule resample_range [OF perm ne valid e l])
  have "map (month_index \<circ> m_sell_date \<circ> fst) (monthly_pl sort_values df)
      = map (month_index \<circ> m_sell_date) (map fst (monthly_pl sort_values df))"
    by (simp only: map_map comp_assoc)
  also have "\<dots> = map (\<lambda>k. k) [?lo..?hi]"
    unfolding rows by (simp add: comp_def month_index_month_end)
  finally have idx: "map (month_index \<circ> m_sell_date \<circ> fst) (monthly_pl sort_values df)
      = [?lo..?hi]" by simp
  have empty: "\<forall>k. ?lo \<le> k \<and> k \<le> ?hi \<and> (\<forall>r \<in> set df. month_index (sell_date r) \<noteq> k)
           \<longrightarrow> \<lparr>m_sell_date = month_end k, m_realized_profit_loss = 0\<rparr>
                 \<in> set (map fst (monthly_pl sort_values df))"
  proof (intro allI impI)
    fix k assume k: "?lo \<le> k \<and> k \<le> ?hi \<and> (\<forall>r \<in> set df. month_index (sell_date r) \<noteq> k)"
    then have "filter (\<lambda>r. month_index (sell_date r) = k) df = []"
      by (auto simp: filter_empty_conv)
    then have "pl_in_month k df = 0" by (simp add: pl_in_month_def)
    then have "?row k = \<lparr>m_sell_date = month_end k, m_realized_profit_loss = 0\<rparr>" by simp
    moreover have "?row k \<in> set (map ?row [?lo..?hi])" using k by auto
    ultimately show "\<lparr>m_sell_date = month_end k, m_realized_profit_loss = 0\<rparr>
                 \<in> set (map fst (monthly_pl sort_values df))"
      unfolding rows by simp
  qed
  have ex1: "length (monthly_pl stable_sort three_trades) = 4"
    by (simp add: monthly_pl_def closed_positions_df_sorted_def resample_ME_sum_def
        month_index_def stable_sort_def cumsum_def Let_def example_defs)
  have ex2: "card ((\<lambda>r. month_index (sell_date r)) ` set three_trades) = 3"
    by (simp add: month_index_def example_defs)
  from idx rows empty ex1 ex2 show ?thesis by blast
qed

theorem monthly_buckets_cover_range_witness:
  "sort_values_ok by_sell_date three_trades (stable_sort three_trades)
   \<and> three_trades \<noteq> []
   \<and> map fst (monthly_pl stable_sort three_trades)
       = [\<lparr>m_sell_date = mk_date 2024 1 31, m_realized_profit_loss = 100\<rparr>,
          \<lparr>m_sell_date = mk_date 2024 2 29, m_realized_profit_loss = - 50\<rparr>,
          \<lparr>m_sell_date = mk_date 2024 3 31, m_realized_profit_loss = 0\<rparr>,
          \<lparr>m_sell_date = mk_date 2024 4 30, m_realized_profit_loss = 25\<rparr>]
   \<and> map (month_index \<circ> m_sell_date \<circ> fst) (monthly_pl stable_sort three_trades)
       = [24288, 24289, 24290, 24291]"
proof -
  have h1: "sort_values_ok by_sell_date three_trades (stable_sort three_trades)"
    by (rule three_trades_sorted_ok)
  have h2: "three_trades \<noteq> []" by (simp add: three_trades_def)
  have h3: "\<forall>r \<in> set three_trades. valid_date (sell_date r)"
    by (simp add: valid_date_def days_in_month_def is_leap_year_def example_defs)
  have h4: "earliest_in three_trades (trade ''AAPL'' (mk_date 2024 1 15) 100 3)"
    by (simp add: earliest_in_def example_defs)
  have h5: "latest_in three_trades (trade ''AAPL'' (mk_date 2024 4 2) 25 1)"
    by (simp add: latest_in_def example_defs)
  have m: "map fst (monthly_pl stable_sort three_trades)
       = [\<lparr>m_sell_date = mk_date 2024 1 31, m_realized_profit_loss = 100\<rparr>,
          \<lparr>m_sell_date = mk_date 2024 2 29, m_realized_profit_loss = - 50\<rparr>,
          \<lparr>m_sell_date = mk_date 2024 3 31, m_realized_profit_loss = 0\<rparr>,
          \<lparr>m_sell_date = mk_date 2024 4 30, m_realized_profit_loss = 25\<rparr>]"
    by (simp add: monthly_pl_def closed_positions_df_sorted_def resample_ME_sum_def
        month_index_def month_end_def days_in_month_def is_leap_year_def
        stable_sort_def cumsum_def Let_def example_defs)
  have i: "month_index (sell_date (trade ''AAPL'' (mk_date 2024 1 15) 100 3)) = 24288"
      "month_index (sell_date (trade ''AAPL'' (mk_date 2024 4 2) 25 1)) = 24291"
    by (simp_all add: month_index_def example_defs)
  from monthly_buckets_cover_range
         [where df = three_trades and sort_values = stable_sort, OF h1 h2 h3 h4 h5]
  have "map (month_index \<circ> m_sell_date \<circ> fst) (monthly_pl stable_sort three_trades)
       = [24288..24291]"
    unfolding i by blast
  then have "map (month_index \<circ> m_sell_date \<circ> fst) (monthly_pl stable_sort three_trades)
       = [24288, 24289, 24290, 24291]"
    by (simp add: upto_rec1)
  with h1 h2 m show ?thesis by blast
qed

section \<open>Instrument rankings\<close>

lemma count_below_sorted:
  fixes v :: "'a \<Rightarrow> 'k::linorder"
  assumes "sorted (map v ys)" and "j < length ys"
  shows "length (filter (\<lambda>x. v x < v (ys ! j)) ys) \<le> j"
proof -
  let ?P = "\<lambda>x. v x < v (ys ! j)"
  have "\<forall>x \<in> set (drop j ys). \<not> ?P x"
  proof
    fix x assume "x \<in> set (drop j ys)"
    then obtain k where k: "k < length ys - j" "x = ys ! (j + k)"
      by (auto simp: in_set_conv_nth)
    then have "map v ys ! j \<le> map v ys ! (j + k)"
      using assms by (intro sorted_nth_mono) simp_all
    with k assms(2) show "\<not> ?P x" by simp
  qed
  then have "filter ?P (drop j ys) = []" by (simp add: filter_empty_conv)
  moreover have "filter ?P ys = filter ?P (take j ys) @ filter ?P (drop j ys)"
    by (metis append_take_drop_id filter_append)
  ultimately have "length (filter ?P ys) = length (filter ?P (take j ys))" by simp
  also have "\<dots> \<le> length (take j ys)" by (rule length_filter_le)
  also have "\<dots> \<le> j" by simp
  finally show ?thesis .
qed

lemma count_below_sorted_desc:
  fixes v :: "'a \<Rightarrow> 'k::linorder"
  assumes "sorted (rev (map v zs))" and "i < length zs" and "v (zs ! i) < c"
  shows "length zs - i \<le> length (filter (\<lambda>x. v x < c) zs)"
proof -
  let ?P = "\<lambda>x. v x < c"
  have "\<forall>x \<in> set (drop i zs). ?P x"
  proof
    fix x assume "x \<in> set (drop i zs)"
    then obtain k where k: "k < length zs - i" "x = zs ! (i + k)"
      by (auto simp: in_set_conv_nth)
    let ?n = "length zs"
    have "rev (map v zs) ! (?n - 1 - (i + k)) \<le> rev (map v zs) ! (?n - 1 - i)"
      using assms(1,2) k(1) by (intro sorted_nth_mono) simp_all
    then have "v (zs ! (i + k)) \<le> v (zs ! i)"
      using assms(2) k(1) by (simp add: rev_nth)
    with assms(3) k(2) show "?P x" by simp
  qed
  then have "filter ?P (drop i zs) = drop i zs" by (simp add: filter_id_conv)
  moreover have "filter ?P zs = filter ?P (take i zs) @ filter ?P (drop i zs)"
    by (metis append_take_drop_id filter_append)
  ultimately have "length (filter ?P zs) = length (filter ?P (take i zs)) + length (drop i zs)"
    by simp
  then show ?thesis by simp
qed

lemma top_ge_bottom:
  fixes v :: "'a \<Rightarrow> 'k::linorder"
  assumes asc: "sorted (map v ys)" "mset ys = mset xs"
    and desc: "sorted (rev (map v zs))" "mset zs = mset xs"
    and len: "m + n \<le> length xs"
    and a: "a \<in> set (take m zs)"
    and b: "b \<in> set (take n ys)"
  shows "v b \<le> v a"
proof (rule ccontr)
  assume "\<not> v b \<le> v a"
  then have lt: "v a < v b" by simp
  have ly: "length ys = length xs" and lz: "length zs = length xs"
    using asc(2) desc(2) by (metis size_mset)+
  from a obtain i where i: "i < m" "i < length zs" "zs ! i = a"
    by (auto simp: in_set_conv_nth)
  from b obtain j where j: "j < n" "j < length ys" "ys ! j = b"
    by (auto simp: in_set_conv_nth)
  let ?P = "\<lambda>x. v x < v b"
  have "length zs - i \<le> length (filter ?P zs)"
    using desc(1) i(2) lt i(3) by (intro count_below_sorted_desc) simp_all
  moreover have "length (filter ?P ys) \<le> j"
    using count_below_sorted [OF asc(1) j(2)] j(3) by simp
  moreover have "length (filter ?P zs) = length (filter ?P ys)"
  proof -
    have "mset (filter ?P zs) = mset (filter ?P ys)"
      by (simp only: mset_filter asc(2) desc(2))
    then show ?thesis by (metis size_mset)
  qed
  ultimately have "length xs - i \<le> j" using lz by simp
  with i(1) j(1) len show False by linarith
qed

lemma instruments_of_performance:
  "map perf_instrument (instrument_performance df) = sort (remdups (map instrument df))"
  by (simp add: instrument_performance_def comp_def Let_def)

lemma performance_row:
  assumes "row \<in> set (instrument_performance df)"
  shows "perf_instrument row \<in> instrument ` set df"
    and "total_pl row = sum_list (map realized_profit_loss (trades_of (perf_instrument row) df))"
    and "num_trades row = length (trades_of (perf_instrument row) df)"
    and "0 < num_trades row"
    and "mean_holding_period row =
           Some (sum_list (map holding_period_days (trades_of (perf_instrument row) df))
                 / of_nat (num_trades row))"
proof -
  from assms obtain k where k: "k \<in> set (map instrument df)"
    and row: "row = \<lparr>perf_instrument = k,
                  total_pl = sum_list (map realized_profit_loss (trades_of k df)),
                  num_trades = length (trades_of k df),
                  mean_holding_period = mean (map holding_period_days (trades_of k df))\<rparr>"
    by (auto simp: instrument_performance_def trades_of_def Let_def)
  from k obtain r where "r \<in> set df" "instrument r = k" by auto
  then have ne: "trades_of k df \<noteq> []"
    by (auto simp: trades_of_def filter_empty_conv)
  show "perf_instrument row \<in> instrument ` set df" using k row by simp
  show "total_pl row = sum_list (map realized_profit_loss (trades_of (perf_instrument row) df))"
    by (simp add: row)
  show "num_trades row = length (trades_of (perf_instrument row) df)"
    by (simp add: row)
  show "0 < num_trades row" using ne by (simp add: row)
  show "mean_holding_period row =
           Some (sum_list (map holding_period_days (trades_of (perf_instrument row) df))
                 / of_nat (num_trades row))"
    using ne by (simp add: row mean_def)
qed

lemma length_performance:
  "length (instrument_performance df) = card (instrument ` set df)"
proof -
  have "length (instrument_performance df) = length (remdups (map instrument df))"
    by (simp add: instrument_performance_def)
  also have "\<dots> = card (set (map instrument df))"
    by (simp add: length_remdups_card_conv)
  finally show ?thesis by simp
qed

text \<open>
  Claim C6. The instrument performance has one row for each instrument of the table, with
  the total P/L, the number of trades and the mean holding period of the instrument's
  trades. Each ranking is the first 10 rows of that frame sorted by total P/L (descending
  for the top, ascending for the bottom): it has at most 10 rows, and all the instruments
  when there are no more than 10. When there are more than 20 instruments, the least total
  P/L of the top list is at least the greatest total P/L of the bottom list.
\<close>

theorem instrument_rankings:
  assumes asc: "sort_values_ok total_pl (instrument_performance df)
                  (sort_values_asc (instrument_performance df))"
    and desc: "sort_values_desc_ok total_pl (instrument_performance df)
                  (sort_values_desc (instrument_performance df))"
  shows "distinct (map perf_instrument (instrument_performance df))
    \<and> set (map perf_instrument (instrument_performance df)) = instrument ` set df
    \<and> length (instrument_performance df) = card (instrument ` set df)
    \<and> (\<forall>row \<in> set (instrument_performance df).
          total_pl row = sum_list (map realized_profit_loss (trades_of (perf_instrument row) df))
          \<and> num_trades row = length (trades_of (perf_instrument row) df)
          \<and> mean_holding_period row =
               Some (sum_list (map holding_period_days (trades_of (perf_instrument row) df))
                     / of_nat (num_trades row)))
    \<and> top_10_profitable sort_values_desc df
         = take 10 (sort_values_desc (instrument_performance df))
    \<and> bottom_10_losing sort_values_asc df
         = take 10 (sort_values_asc (instrument_performance df))
    \<and> sorted (rev (map total_pl (top_10_profitable sort_values_desc df)))
    \<and> sorted (map total_pl (bottom_10_losing sort_values_asc df))
    \<and> length (top_10_profitable sort_values_desc df) \<le> 10
    \<and> length (bottom_10_losing sort_values_asc df) \<le> 10
    \<and> (card (instrument ` set df) \<le> 10 \<longrightarrow>
          mset (top_10_profitable sort_values_desc df) = mset (instrument_performance df)
          \<and> mset (bottom_10_losing sort_values_asc df) = mset (instrument_performance df))
    \<and> (2 * 10 < card (instrument ` set df) \<longrightarrow>
          (\<forall>a \<in> set (top_10_profitable sort_values_desc df).
             \<forall>b \<in> set (bottom_10_losing sort_values_asc df). total_pl b \<le> total_pl a)
          \<and> Max (total_pl ` set (bottom_10_losing sort_values_asc df))
                \<le> Min (total_pl ` set (top_10_profitable sort_values_desc df)))"
proof -
  let ?perf = "instrument_performance df"
  let ?top = "top_10_profitable sort_values_desc df"
  let ?bot = "bottom_10_losing sort_values_asc df"
  let ?ys = "sort_values_asc ?perf" and ?zs = "sort_values_desc ?perf"
  from asc have ys: "sorted (map total_pl ?ys)" "mset ?ys = mset ?perf"
    by (simp_all add: sort_values_ok_def)
  from desc have zs: "sorted (rev (map total_pl ?zs))" "mset ?zs = mset ?perf"
    by (simp_all add: sort_values_desc_ok_def)
  have ly: "length ?ys = length ?perf" and lz: "length ?zs = length ?perf"
    using ys(2) zs(2) by (metis size_mset)+
  have n: "length ?perf = card (instrument ` set df)" by (rule length_performance)
  have p1: "distinct (map perf_instrument ?perf)"
    by (simp add: instruments_of_performance)
  have p2: "set (map perf_instrument ?perf) = instrument ` set df"
    by (simp add: instruments_of_performance)
  have p3: "\<forall>row \<in> set ?perf.
          total_pl row = sum_list (map realized_profit_loss (trades_of (perf_instrument row) df))
          \<and> num_trades row = length (trades_of (perf_instrument row) df)
          \<and> mean_holding_period row =
               Some (sum_list (map holding_period_days (trades_of (perf_instrument row) df))
                     / of_nat (num_trades row))"
    using performance_row [of _ df] by blast
  have t: "?top = take 10 ?zs" by (simp add: top_10_profitable_def)
  have b: "?bot = take 10 ?ys" by (simp add: bottom_10_losing_def)
  have "rev (map total_pl (take 10 ?zs)) = drop (length ?zs - 10) (rev (map total_pl ?zs))"
    unfolding take_map [symmetric] rev_take by simp
  moreover have "sorted (drop (length ?zs - 10) (rev (map total_pl ?zs)))"
    using zs(1) by (rule sorted_wrt_drop)
  ultimately have p4: "sorted (rev (map total_pl ?top))"
    unfolding t by simp
  have p5: "sorted (map total_pl ?bot)"
    unfolding b take_map [symmetric] using ys(1) by (rule sorted_wrt_take)
  have p6: "length ?top \<le> 10" by (simp add: t)
  have p7: "length ?bot \<le> 10" by (simp add: b)
  have p8: "card (instrument ` set df) \<le> 10 \<longrightarrow>
          mset ?top = mset ?perf \<and> mset ?bot = mset ?perf"
  proof
    assume "card (instrument ` set df) \<le> 10"
    then have "length ?zs \<le> 10" "length ?ys \<le> 10" using n ly lz by simp_all
    then have "?top = ?zs" "?bot = ?ys" by (simp_all add: t b)
    with ys(2) zs(2) show "mset ?top = mset ?perf \<and> mset ?bot = mset ?perf" by simp
  qed
  have p9: "2 * 10 < card (instrument ` set df) \<longrightarrow>
          (\<forall>a \<in> set ?top. \<forall>b \<in> set ?bot. total_pl b \<le> total_pl a)
          \<and> Max (total_pl ` set ?bot) \<le> Min (total_pl ` set ?top)"
  proof
    assume big: "2 * 10 < card (instrument ` set df)"
    then have len: "10 + 10 \<le> length ?perf" using n by simp
    have all: "\<forall>a \<in> set ?top. \<forall>b \<in> set ?bot. total_pl b \<le> total_pl a"
      unfolding t b using top_ge_bottom [OF ys zs len] by blast
    have "?zs \<noteq> []" "?ys \<noteq> []" using len ly lz by auto
    then have tne: "set ?top \<noteq> {}" and bne: "set ?bot \<noteq> {}" by (simp_all add: t b)
    have "Max (total_pl ` set ?bot) \<le> Min (total_pl ` set ?top)"
      using all tne bne by (simp add: Max_le_iff Min_ge_iff)
    with all show "(\<forall>a \<in> set ?top. \<forall>b \<in> set ?bot. total_pl b \<le> total_pl a)
          \<and> Max (total_pl ` set ?bot) \<le> Min (total_pl ` set ?top)" by simp
  qed
  from p1 p2 n p3 t b p4 p5 p6 p7 p8 p9 show ?thesis by blast
qed

lemma sort_asc_ok: "sort_values_ok total_pl rows (sort_asc rows)"
  by (simp add: sort_values_ok_def sort_asc_def)

lemma sort_desc_ok: "sort_values_desc_ok total_pl rows (sort_desc rows)"
  by (simp add: sort_values_desc_ok_def sort_desc_def rev_map [symmetric])

lemma many_instruments_performance:
  "instrument_performance many_instruments =
     [\<lparr>perf_instrument = ''AAPL'', total_pl = 10, num_trades = 2, mean_holding_period = Some 3\<rparr>,
      \<lparr>perf_instrument = ''AMD'', total_pl = - 100, num_trades = 1, mean_holding_period = Some 30\<rparr>,
      \<lparr>perf_instrument = ''AMZN'', total_pl = 70, num_trades = 1, mean_holding_period = Some 12\<rparr>,
      \<lparr>perf_instrument = ''BA'', total_pl = - 5, num_trades = 1, mean_holding_period = Some 3\<rparr>,
      \<lparr>perf_instrument = ''BABA'', total_pl = - 40, num_trades = 1, mean_holding_period = Some 40\<rparr>,
      \<lparr>perf_instrument = ''COIN'', total_pl = - 50, num_trades = 1, mean_holding_period = Some 2\<rparr>,
      \<lparr>perf_instrument = ''DIS'', total_pl = 5, num_trades = 1, mean_holding_period = Some 10\<rparr>,
      \<lparr>perf_instrument = ''F'', total_pl = 0, num_trades = 1, mean_holding_period = Some 1\<rparr>,
      \<lparr>perf_instrument = ''GME'', total_pl = - 90, num_trades = 1, mean_holding_period = Some 1\<rparr>,
      \<lparr>perf_instrument = ''GOOG'', total_pl = 60, num_trades = 1, mean_holding_period = Some 9\<rparr>,
      \<lparr>perf_instrument = ''INTC'', total_pl = - 20, num_trades = 1, mean_holding_period = Some 17\<rparr>,
      \<lparr>perf_instrument = ''META'', total_pl = 50, num_trades = 1, mean_holding_period = Some 5\<rparr>,
      \<lparr>perf_instrument = ''MSFT'', total_pl = 80, num_trades = 1, mean_holding_period = Some 7\<rparr>,
      \<lparr>perf_instrument = ''NFLX'', total_pl = 40, num_trades = 1, mean_holding_period = Some 8\<rparr>,
      \<lparr>perf_instrument = ''NIO'', total_pl = - 80, num_trades = 1, mean_holding_period = Some 21\<rparr>,
      \<lparr>perf_instrument = ''NVDA'', total_pl = 90, num_trades = 1, mean_holding_period = Some 15\<rparr>,
      \<lparr>perf_instrument = ''PLTR'', total_pl = - 60, num_trades = 1, mean_holding_period = Some 11\<rparr>,
      \<lparr>perf_instrument = ''PYPL'', total_pl = - 30, num_trades = 1, mean_holding_period = Some 13\<rparr>,
      \<lparr>perf_instrument = ''SNAP'', total_pl = - 70, num_trades = 1, mean_holding_period = Some 3\<rparr>,
      \<lparr>perf_instrument = ''TSLA'', total_pl = 100, num_trades = 1, mean_holding_period = Some 4\<rparr>,
      \<lparr>perf_instrument = ''UBER'', total_pl = 30, num_trades = 1, mean_holding_period = Some 6\<rparr>]"
  by (simp add: instrument_performance_def many_instruments_def trade_def mean_def Let_def)

lemma many_instruments_top:
  "map perf_instrument (top_10_profitable sort_desc many_instruments) =
     [''TSLA'', ''NVDA'', ''MSFT'', ''AMZN'', ''GOOG'', ''META'', ''NFLX'', ''UBER'', ''AAPL'',
      ''DIS'']"
  by (simp add: top_10_profitable_def sort_desc_def many_instruments_performance)

lemma many_instruments_bottom:
  "map perf_instrument (bottom_10_losing sort_asc many_instruments) =
     [''AMD'', ''GME'', ''NIO'', ''SNAP'', ''PLTR'', ''COIN'', ''BABA'', ''PYPL'', ''INTC'',
      ''BA'']"
  by (simp add: bottom_10_losing_def sort_asc_def many_instruments_performance)

theorem instrument_rankings_witness:
  "sort_values_ok total_pl (instrument_performance many_instruments)
      (sort_asc (instrument_performance many_instruments))
   \<and> sort_values_desc_ok total_pl (instrument_performance many_instruments)
      (sort_desc (instrument_performance many_instruments))
   \<and> card (instrument ` set many_instruments) = 21
   \<and> map perf_instrument (top_10_profitable sort_desc many_instruments) =
     [''TSLA'', ''NVDA'', ''MSFT'', ''AMZN'', ''GOOG'', ''META'', ''NFLX'', ''UBER'', ''AAPL'',
      ''DIS'']
   \<and> map perf_instrument (bottom_10_losing sort_asc many_instruments) =
     [''AMD'', ''GME'', ''NIO'', ''SNAP'', ''PLTR'', ''COIN'', ''BABA'', ''PYPL'', ''INTC'',
      ''BA'']
   \<and> Max (total_pl ` set (bottom_10_losing sort_asc many_instruments))
         \<le> Min (total_pl ` set (top_10_profitable sort_desc many_instruments))
   \<and> card (instrument ` set three_trades) = 2
   \<and> mset (top_10_profitable sort_desc three_trades) = mset (instrument_performance three_trades)
   \<and> mset (bottom_10_losing sort_asc three_trades) = mset (instrument_performance three_trades)"
proof -
  have a: "sort_values_ok total_pl (instrument_performance many_instruments)
      (sort_asc (instrument_performance many_instruments))"
    by (rule sort_asc_ok)
  have d: "sort_values_desc_ok total_pl (instrument_performance many_instruments)
      (sort_desc (instrument_performance many_instruments))"
    by (rule sort_desc_ok)
  have "length (instrument_performance many_instruments) = 21"
    by (simp add: many_instruments_performance)
  then have c: "card (instrument ` set many_instruments) = 21"
    by (simp add: length_performance)
  have a3: "sort_values_ok total_pl (instrument_performance three_trades)
      (sort_asc (instrument_performance three_trades))"
    by (rule sort_asc_ok)
  have d3: "sort_values_desc_ok total_pl (instrument_performance three_trades)
      (sort_desc (instrument_performance three_trades))"
    by (rule sort_desc_ok)
  have "length (instrument_performance three_trades) = 2"
    by (simp add: instrument_performance_def example_defs)
  then have c3: "card (instrument ` set three_trades) = 2"
    by (simp add: length_performance)
  note big = instrument_rankings [where df = many_instruments and sort_values_asc = sort_asc
      and sort_values_desc = sort_desc, OF a d]
  note small = instrument_rankings [where df = three_trades and sort_values_asc = sort_asc
      and sort_values_desc = sort_desc, OF a3 d3]
  have c': "2 * 10 < card (instrument ` set many_instruments)" by (simp add: c)
  from big have "2 * 10 < card (instrument ` set many_instruments) \<longrightarrow>
      (\<forall>a \<in> set (top_10_profitable sort_desc many_instruments).
         \<forall>b \<in> set (bottom_10_losing sort_asc many_instruments). total_pl b \<le> total_pl a)
      \<and> Max (total_pl ` set (bottom_10_losing sort_asc many_instruments))
         \<le> Min (total_pl ` set (top_10_profitable sort_desc many_instruments))"
    by (elim conjE)
  with c' have m: "Max (total_pl ` set (bottom_10_losing sort_asc many_instruments))
         \<le> Min (total_pl ` set (top_10_profitable sort_desc many_instruments))"
    by (elim impE conjE)
  have c3': "card (instrument ` set three_trades) \<le> 10" by (simp add: c3)
  from small have "card (instrument ` set three_trades) \<le> 10 \<longrightarrow>
     mset (top_10_profitable sort_desc three_trades) = mset (instrument_performance three_trades)
     \<and> mset (bottom_10_losing sort_asc three_trades) = mset (instrument_performance three_trades)"
    by (elim conjE)
  with c3' have s: "mset (top_10_profitable sort_desc three_trades) = mset (instrument_performance three_trades)
     \<and> mset (bottom_10_losing sort_asc three_trades) = mset (instrument_performance three_trades)"
    by (elim impE)
  from a d c many_instruments_top many_instruments_bottom m c3 s show ?thesis by blast
qed

section \<open>A run of the script on a loaded table\<close>

lemmas line_defs =
  line_24_def line_28_def line_29_def line_32_def line_33_def line_36_def line_41_def
  line_42_def lines_57_to_67_def line_114_def line_115_def lines_118_to_121_def

lemma script_finishes:
  "script lib (Inr df) =
     Finished \<lparr>heap = final_heap lib df, globals = final_globals,
               summary = Some (final_summary df)\<rparr>"
  unfolding script_def statements_def startup_def
  by (simp add: line_defs assign_new_def frame_of_def read_positions_def final_heap_def
      final_globals_def final_summary_def closed_positions_df_sorted_def monthly_pl_def
      top_10_profitable_def bottom_10_losing_def combined_holding_def Let_def fun_upd_def
      fun_eq_iff)

lemma take_all_statements:
  "12 \<le> n \<Longrightarrow> take n (statements lib src) = statements lib src"
  by (simp add: statements_def)

lemma base_after_prefixes:
  "list_all
     (\<lambda>n. frame_after V_closed_positions_df (run (take n (statements lib (Inr df))) startup)
            = Some (Positions df))
     [Suc 0..<12]"
  unfolding statements_def startup_def frame_after_def
  by (simp add: upt_rec line_defs assign_new_def frame_of_def read_positions_def)

lemma base_after_prefix:
  assumes "1 \<le> n" and "n < 12"
  shows "frame_after V_closed_positions_df (run (take n (statements lib (Inr df))) startup)
           = Some (Positions df)"
proof -
  from assms have "n \<in> set [Suc 0..<12]" by simp
  with base_after_prefixes [of lib df] show ?thesis
    unfolding list_all_iff by blast
qed

text \<open>
  Claim C9. After the table is loaded, the frame that \<open>closed_positions_df\<close> refers to is
  the loaded table, with the columns and rows it was loaded with, after each statement of
  the script and at its end. The column \<open>cumulative_pl\<close> of line 29 goes to the frame
  that \<^verbatim>\<open>sort_values\<close> returned, which is another object.
\<close>

theorem base_table_unchanged:
  "(1 \<le> n \<longrightarrow>
      frame_after V_closed_positions_df (run (take n (statements lib (Inr df))) startup)
        = Some (Positions df))
   \<and> frame_after V_closed_positions_df (script lib (Inr df)) = Some (Positions df)
   \<and> frame_after V_closed_positions_df_sorted (script lib (Inr df))
        = Some (PositionsCum (closed_positions_df_sorted (sort_by_sell_date lib) df))"
proof -
  have fin: "frame_after V_closed_positions_df (script lib (Inr df)) = Some (Positions df)"
    by (simp add: script_finishes frame_after_def frame_of_def final_globals_def final_heap_def)
  have srt: "frame_after V_closed_positions_df_sorted (script lib (Inr df))
        = Some (PositionsCum (closed_positions_df_sorted (sort_by_sell_date lib) df))"
    by (simp add: script_finishes frame_after_def frame_of_def final_globals_def final_heap_def)
  have "frame_after V_closed_positions_df (run (take n (statements lib (Inr df))) startup)
        = Some (Positions df)" if n: "1 \<le> n"
  proof (cases "n < 12")
    case True
    with n show ?thesis by (rule base_after_prefix)
  next
    case False
    then have "take n (statements lib (Inr df)) = statements lib (Inr df)"
      by (intro take_all_statements) simp
    with fin show ?thesis by (simp add: script_def)
  qed
  with fin srt show ?thesis by blast
qed

theorem base_table_unchanged_witness:
  "frame_after V_closed_positions_df
      (run (take 3 (statements stable_lib (Inr three_trades))) startup)
     = Some (Positions three_trades)
   \<and> frame_after V_closed_positions_df (script stable_lib (Inr three_trades))
     = Some (Positions three_trades)
   \<and> frame_after V_closed_positions_df_sorted
        (run (take 3 (statements stable_lib (Inr three_trades))) startup)
     = Some (PositionsCum
          [(trade ''AAPL'' (mk_date 2024 1 15) 100 3, 100),
           (trade ''TSLA'' (mk_date 2024 2 20) (- 50) 10, 50),
           (trade ''AAPL'' (mk_date 2024 4 2) 25 1, 75)])"
proof -
  have c: "frame_after V_closed_positions_df_sorted
        (run (take 3 (statements stable_lib (Inr three_trades))) startup)
     = Some (PositionsCum
          [(trade ''AAPL'' (mk_date 2024 1 15) 100 3, 100),
           (trade ''TSLA'' (mk_date 2024 2 20) (- 50) 10, 50),
           (trade ''AAPL'' (mk_date 2024 4 2) 25 1, 75)])"
    unfolding statements_def startup_def frame_after_def
    by (simp add: line_defs assign_new_def frame_of_def read_positions_def stable_lib_def
        stable_sort_def cumsum_three example_defs)
  from base_table_unchanged [of 3 stable_lib three_trades] c show ?thesis by simp
qed

section \<open>Empty table\<close>

lemma sort_values_ok_Nil: "sort_values_ok key [] ys \<Longrightarrow> ys = []"
  by (simp add: sort_values_ok_def)

lemma sort_values_desc_ok_Nil: "sort_values_desc_ok key [] ys \<Longrightarrow> ys = []"
  by (simp add: sort_values_desc_ok_def)

lemma stable_lib_ok: "lib_ok stable_lib df"
  by (simp add: lib_ok_def stable_lib_def stable_sort_def sort_key_ok sort_asc_ok sort_desc_ok)

text \<open>
  Claim C5. On a table without rows the script runs to its end without an exception: the
  total realized P/L is 0, the number of trades 0, the win rate 0 (the mean holding period
  is NaN), and every frame it builds (chronological series, monthly series, instrument
  performance and both rankings, the profitable and the losing trades and their
  concatenation) has no rows.
\<close>

theorem empty_table:
  assumes "lib_ok lib []"
  shows "script lib (Inr []) =
     Finished
       \<lparr>heap = [Positions [], PositionsCum [], MonthlyCum [], Instruments [], Instruments [],
                Instruments [], Positions [], Positions [], Outcomes []],
        globals = final_globals,
        summary = Some \<lparr>m_total_realized_pl = 0, m_total_trades = 0,
                         m_profitable_trades_count = 0, m_win_rate = 0,
                         m_avg_holding_period = None\<rparr>\<rparr>"
proof -
  have perf: "instrument_performance [] = []"
    by (simp add: instrument_performance_def)
  from assms have s1: "sort_by_sell_date lib [] = []"
    and s2: "sort_by_total_pl_descending lib [] = []"
    and s3: "sort_by_total_pl_ascending lib [] = []"
    unfolding lib_ok_def perf
    by (auto dest: sort_values_ok_Nil sort_values_desc_ok_Nil)
  have "final_heap lib [] =
      [Positions [], PositionsCum [], MonthlyCum [], Instruments [], Instruments [],
       Instruments [], Positions [], Positions [], Outcomes []]"
    by (simp add: final_heap_def closed_positions_df_sorted_def monthly_pl_def
        resample_ME_sum_def cumsum_def top_10_profitable_def bottom_10_losing_def perf
        profitable_trades_def losing_trades_def combined_holding_def s1 s2 s3)
  moreover have "final_summary [] =
      \<lparr>m_total_realized_pl = 0, m_total_trades = 0, m_profitable_trades_count = 0,
       m_win_rate = 0, m_avg_holding_period = None\<rparr>"
    by (simp add: final_summary_def total_realized_pl_def total_trades_def
        profitable_trades_count_def win_rate_def avg_holding_period_def mean_def)
  ultimately show ?thesis by (simp add: script_finishes)
qed

theorem empty_table_witness:
  "lib_ok stable_lib []
   \<and> script stable_lib (Inr []) =
     Finished
       \<lparr>heap = [Positions [], PositionsCum [], MonthlyCum [], Instruments [], Instruments [],
                Instruments [], Positions [], Positions [], Outcomes []],
        globals = final_globals,
        summary = Some \<lparr>m_total_realized_pl = 0, m_total_trades = 0,
                         m_profitable_trades_count = 0, m_win_rate = 0,
                         m_avg_holding_period = None\<rparr>\<rparr>"
  using empty_table [OF stable_lib_ok] stable_lib_ok [of "[]"] by simp

section \<open>Failure of the load\<close>

text \<open>
  Claim C4, as stated: an absent or unparsable file makes the loader show an error message
  and stop the run. For a file that is there and cannot be parsed \<^verbatim>\<open>pd.read_csv\<close> raises
  \<^verbatim>\<open>ParserError\<close>, which \<^verbatim>\<open>except FileNotFoundError\<close> does not catch: the loader shows
  no message, and the exception ends the run uncaught.
\<close>

theorem unparsable_file_counterexample:
  "load_data (Inl ParserError) = Uncaught ParserError
   \<and> load_data (Inl ParserError) \<noteq> StopApp data_files_not_found
   \<and> script stable_lib (Inl ParserError) = Crashed ParserError startup
   \<and> script stable_lib (Inl ParserError) \<noteq> Halted data_files_not_found startup"
  by (simp add: script_def statements_def line_24_def)

text \<open>
  Claim C4, amended. If the file is absent, the loader shows its error message and stops
  the run before any statement after the load: the store is empty, no variable is assigned
  and no summary is computed. This is the only exception the program handles: any other
  exception of the load leaves \<^verbatim>\<open>load_data\<close> uncaught and ends the run, also before any
  derived view is computed, and the loader stops the app with a message for an absent file
  only.
\<close>

theorem load_failure:
  "script lib (Inl FileNotFoundError) = Halted data_files_not_found startup
   \<and> (e \<noteq> FileNotFoundError \<longrightarrow>
        load_data (Inl e) = Uncaught e \<and> script lib (Inl e) = Crashed e startup)
   \<and> (load_data src = StopApp msg \<longleftrightarrow>
        src = Inl FileNotFoundError \<and> msg = data_files_not_found)
   \<and> heap startup = [] \<and> globals startup = (\<lambda>v. None) \<and> summary startup = None"
proof -
  have a: "script lib (Inl FileNotFoundError) = Halted data_files_not_found startup"
    by (simp add: script_def statements_def line_24_def)
  have b: "e \<noteq> FileNotFoundError \<longrightarrow>
        load_data (Inl e) = Uncaught e \<and> script lib (Inl e) = Crashed e startup"
    by (cases e) (simp_all add: script_def statements_def line_24_def)
  have c: "load_data src = StopApp msg \<longleftrightarrow>
        src = Inl FileNotFoundError \<and> msg = data_files_not_found"
  proof (cases src)
    case (Inl x)
    then show ?thesis by (cases x) auto
  next
    case (Inr df)
    then show ?thesis by simp
  qed
  have d: "heap startup = [] \<and> globals startup = (\<lambda>v. None) \<and> summary startup = None"
    by (simp add: startup_def)
  from a b c d show ?thesis by blast
qed

theorem load_failure_witness:
  "script stable_lib (Inl FileNotFoundError) = Halted data_files_not_found startup
   \<and> load_data (Inl EmptyDataError) = Uncaught EmptyDataError
   \<and> script stable_lib (Inl EmptyDataError) = Crashed EmptyDataError startup"
  using load_failure [of stable_lib EmptyDataError "Inl EmptyDataError" data_files_not_found]
  by simp

end
